theory Spec2Isabelle
  imports Complex_Main "HOL-Library.Word"
begin

unbundle bit_operations_syntax

section \<open>Machine types\<close>

text \<open>
  The driver's integers are modelled with their widths. A C \<open>int\<close> and an
  \<open>unsigned int\<close> are 32-bit words (\<open>sint\<close> reads the signed one), the
  \<open>uint64_t\<close>, \<open>size_t\<close> and \<open>int64_t\<close> values are 64-bit words. Arithmetic on
  words wraps around as the unsigned C arithmetic does.
\<close>

type_synonym c_int = "32 word"
type_synonym c_uint = "32 word"
type_synonym u64 = "64 word"
type_synonym i64 = "64 word"

section \<open>Data model\<close>

text \<open>The status codes of libusb's \<open>enum libusb_transfer_status\<close>.\<close>

datatype libusb_transfer_status =
    LIBUSB_TRANSFER_COMPLETED
  | LIBUSB_TRANSFER_ERROR
  | LIBUSB_TRANSFER_TIMED_OUT
  | LIBUSB_TRANSFER_CANCELLED
  | LIBUSB_TRANSFER_STALL
  | LIBUSB_TRANSFER_NO_DEVICE
  | LIBUSB_TRANSFER_OVERFLOW

text \<open>
  The fields of \<open>struct libusb_transfer\<close> that the driver reads or writes.
  \<open>user_data\<close> is the pointer to the device instance: \<open>True\<close> when it is not
  \<open>NULL\<close>. \<open>length_xfer\<close> is the field \<open>length\<close>.
\<close>

record libusb_transfer =
  status :: libusb_transfer_status
  length_xfer :: c_int
  actual_length :: c_int
  timeout :: c_uint
  user_data :: bool

text \<open>
  Modelled from the spec: \<open>protocol.h\<close>, which declares the macros below and
  \<open>struct dev_context\<close>, is not among the sources. Its constants are taken as
  parameters: the pool capacity \<open>NUM_MAX_TRANSFERS\<close>, the fractional tolerance
  \<open>TRANSFERS_DURATION_TOLERANCE\<close> (a floating-point constant; its value is a
  rational number) and the pattern mode \<open>PATTERN_MODE_TEST_MAX_SPEED\<close>.

  The expressions with the tolerance are floating-point arithmetic. A floating-point
  operation gives the exact result rounded to the format, so the two roundings are
  parameters as well: \<open>round_float\<close> rounds to the floating-point type of the
  tolerance (\<open>float\<close> or \<open>double\<close>, the header decides), \<open>round_double\<close> rounds
  to \<open>double\<close>. Nothing is assumed of them.
\<close>

record protocol_h =
  NUM_MAX_TRANSFERS :: u64
  TRANSFERS_DURATION_TOLERANCE :: rat
  PATTERN_MODE_TEST_MAX_SPEED :: u64
  round_float :: "rat \<Rightarrow> rat"
  round_double :: "rat \<Rightarrow> rat"

text \<open>
  Modelled from the spec: \<open>struct dev_context\<close> is declared in \<open>protocol.h\<close>,
  which is not among the sources. These are the fields that \<open>protocol.c\<close> uses,
  the attributes of the spec's acquisition session. The counters are taken as unsigned
  64-bit values (\<open>api.c\<close> stores \<open>g_variant_get_uint64\<close> results in the
  \<open>cur_\<close> fields); the two time stamps are read as signed, as the \<open>int64_t\<close>
  locals of the handler are; \<open>acq_aborted\<close> is a C \<open>int\<close>. \<open>transfers\<close> is
  the array of \<open>NUM_MAX_TRANSFERS\<close> transfer pointers, \<open>None\<close> for \<open>NULL\<close>; a
  pointer is the number of the allocation.
\<close>

record dev_context =
  cur_limit_samples :: u64
  cur_samplerate :: u64
  cur_samplechannel :: u64
  cur_pattern_mode_idx :: u64
  samples_need_nbytes :: u64
  samples_got_nbytes :: u64
  per_transfer_duration :: u64
  per_transfer_nbytes :: u64
  num_transfers_used :: u64
  num_transfers_completed :: u64
  transfers :: "nat option list"
  transfers_reached_nbytes :: u64
  transfers_reached_nbytes_latest :: u64
  transfers_reached_time_start :: i64
  transfers_reached_time_latest :: i64
  acq_aborted :: c_int

text \<open>
  What the driver does to its collaborators: bytes handed to the consumer by
  \<open>devc->model->submit_raw_data\<close> (with the length), and a call of
  \<open>libusb_submit_transfer\<close> (with the transfer as submitted and the return code).
\<close>

datatype io_event =
    Submit_raw_data u64
  | Libusb_submit_transfer libusb_transfer c_int

text \<open>
  One invocation of the completion callback: the transfer libusb hands over, the value
  of \<open>g_get_monotonic_time\<close> (microseconds) and what \<open>libusb_submit_transfer\<close>
  returns if the callback calls it.
\<close>

record completion =
  xfer :: libusb_transfer
  time_now :: i64
  submit_ret :: c_int

section \<open>Stopping\<close>

text \<open>\<open>sipeed_slogic_acquisition_stop\<close>: sets the abort latch.\<close>

definition sipeed_slogic_acquisition_stop :: "dev_context \<Rightarrow> dev_context" where
  "sipeed_slogic_acquisition_stop devc = devc\<lparr>acq_aborted := 1\<rparr>"

section \<open>The completion handler\<close>

text \<open>
  The expressions with \<open>TRANSFERS_DURATION_TOLERANCE\<close>, operation by operation:
  every conversion of an integer to floating point and every sum, product and quotient
  is rounded.

  \<open>tolerance_threshold\<close> is \<open>(TRANSFERS_DURATION_TOLERANCE + 1) *
  devc->per_transfer_duration\<close>, which lines 79, 101 and 271 share.
  \<open>duration_exceeds\<close> is the test \<open>(double)transfers_reached_duration / SR_KHZ(1) >
  (TRANSFERS_DURATION_TOLERANCE + 1) * devc->per_transfer_duration\<close> of line 101 (a
  \<open>float\<close> becomes a \<open>double\<close> without rounding). \<open>timeout_product\<close> is the
  threshold times the count \<open>n\<close>, and \<open>transfer_timeout\<close> is \<open>(TRANSFERS_DURATION_TOLERANCE + 1) *
  devc->per_transfer_duration * (devc->num_transfers_used + 2)\<close> converted to the
  \<open>unsigned int\<close> field \<open>timeout\<close>: the fraction is cut off. C defines that
  conversion for a value above \<open>-1\<close> and below \<open>2^32\<close> only; outside of this
  range the model takes the integer part modulo \<open>2^32\<close>, and no theorem relies on
  it.
\<close>

definition tolerance_threshold :: "protocol_h \<Rightarrow> u64 \<Rightarrow> rat" where
  "tolerance_threshold h ptd =
     round_float h (round_float h (TRANSFERS_DURATION_TOLERANCE h + 1)
                    * round_float h (of_nat (unat ptd)))"

definition duration_exceeds :: "protocol_h \<Rightarrow> i64 \<Rightarrow> u64 \<Rightarrow> bool" where
  "duration_exceeds h d ptd \<longleftrightarrow>
     round_double h (round_double h (of_int (sint d)) / round_double h 1000)
       > tolerance_threshold h ptd"

definition timeout_product :: "protocol_h \<Rightarrow> u64 \<Rightarrow> u64 \<Rightarrow> rat" where
  "timeout_product h ptd n =
     round_float h (tolerance_threshold h ptd * round_float h (of_nat (unat n)))"

definition transfer_timeout :: "protocol_h \<Rightarrow> u64 \<Rightarrow> u64 \<Rightarrow> c_uint" where
  "transfer_timeout h ptd used = of_nat (nat \<lfloor>timeout_product h ptd (used + 2)\<rfloor>)"

text \<open>
  Lines 49 and 50: \<open>actual_length\<close> (an \<open>int\<close>, converted to 64 bits for the
  comparison) is cut down to the bytes still needed.
\<close>

definition clamp_actual_length :: "dev_context \<Rightarrow> libusb_transfer \<Rightarrow> libusb_transfer" where
  "clamp_actual_length devc t =
     (if (scast (actual_length t) :: u64) > samples_need_nbytes devc - samples_got_nbytes devc
      then t\<lparr>actual_length := ucast (samples_need_nbytes devc - samples_got_nbytes devc)\<rparr>
      else t)"

text \<open>
  The branch of the \<open>switch\<close> for \<open>LIBUSB_TRANSFER_COMPLETED\<close> and
  \<open>LIBUSB_TRANSFER_TIMED_OUT\<close>.
\<close>

definition receive_data ::
  "protocol_h \<Rightarrow> completion \<Rightarrow> dev_context \<Rightarrow> dev_context \<times> libusb_transfer \<times> io_event list" where
  "receive_data h c devc =
     (let t = xfer c;
          d1 = devc\<lparr>transfers_reached_nbytes_latest := scast (actual_length t)\<rparr>;
          d2 = d1\<lparr>transfers_reached_nbytes :=
                    transfers_reached_nbytes d1 + transfers_reached_nbytes_latest d1\<rparr>;
          t1 = clamp_actual_length d2 t;
          d3 = d2\<lparr>samples_got_nbytes := samples_got_nbytes d2 + scast (actual_length t1)\<rparr>;
          d4 = d3\<lparr>transfers_reached_time_latest := time_now c\<rparr>
      in if actual_length t1 = 0
         then (d4\<lparr>num_transfers_used := num_transfers_used d4 - 1\<rparr>, t1, [])
         else
           let fwd = (if cur_pattern_mode_idx d4 \<noteq> PATTERN_MODE_TEST_MAX_SPEED h
                      then [Submit_raw_data (scast (actual_length t1))] else []);
               d5 = d4\<lparr>num_transfers_used := num_transfers_used d4 - 1\<rparr>
           in if samples_got_nbytes d5 + num_transfers_used d5 * per_transfer_nbytes d5
                   < samples_need_nbytes d5
              then
                let t2 = t1\<lparr>actual_length := 0,
                            timeout := transfer_timeout h (per_transfer_duration d5)
                                         (num_transfers_used d5)\<rparr>
                in if submit_ret c \<noteq> 0
                   then (d5, t2, fwd @ [Libusb_submit_transfer t2 (submit_ret c)])
                   else (d5\<lparr>num_transfers_used := num_transfers_used d5 + 1\<rparr>, t2,
                         fwd @ [Libusb_submit_transfer t2 (submit_ret c)])
              else (d5, t1, fwd))"

text \<open>The \<open>switch\<close> on the transfer's status, lines 44 to 99.\<close>

definition receive_switch ::
  "protocol_h \<Rightarrow> completion \<Rightarrow> dev_context \<Rightarrow> dev_context \<times> libusb_transfer \<times> io_event list" where
  "receive_switch h c devc =
     (case status (xfer c) of
        LIBUSB_TRANSFER_COMPLETED \<Rightarrow> receive_data h c devc
      | LIBUSB_TRANSFER_TIMED_OUT \<Rightarrow> receive_data h c devc
      | LIBUSB_TRANSFER_OVERFLOW \<Rightarrow> (devc\<lparr>num_transfers_used := 0\<rparr>, xfer c, [])
      | LIBUSB_TRANSFER_STALL \<Rightarrow> (devc\<lparr>num_transfers_used := 0\<rparr>, xfer c, [])
      | LIBUSB_TRANSFER_NO_DEVICE \<Rightarrow> (devc\<lparr>num_transfers_used := 0\<rparr>, xfer c, [])
      | _ \<Rightarrow> (devc\<lparr>num_transfers_used := num_transfers_used devc - 1\<rparr>, xfer c, []))"

text \<open>
  Lines 101 to 113, after the \<open>switch\<close>: the check of the gap \<open>d\<close> since the time
  stamp of the latest data, the stop when no transfer is in use, and the count of
  completions.
\<close>

definition receive_checks :: "protocol_h \<Rightarrow> i64 \<Rightarrow> dev_context \<Rightarrow> dev_context" where
  "receive_checks h d devc =
     (let d1 = (if num_transfers_completed devc \<noteq> 0
                   \<and> duration_exceeds h d (per_transfer_duration devc)
                then devc\<lparr>num_transfers_used := 0\<rparr> else devc);
          d2 = (if num_transfers_used d1 = 0 then sipeed_slogic_acquisition_stop d1 else d1)
      in d2\<lparr>num_transfers_completed := num_transfers_completed d2 + 1\<rparr>)"

text \<open>
  \<open>receive_transfer\<close>, the callback of every pool transfer. It returns the device
  context, the transfer and the calls made to the collaborators.
\<close>

definition receive_transfer ::
  "protocol_h \<Rightarrow> completion \<Rightarrow> dev_context \<Rightarrow> dev_context \<times> libusb_transfer \<times> io_event list" where
  "receive_transfer h c devc =
     (if \<not> user_data (xfer c) then (devc, xfer c, [])
      else if acq_aborted devc = 1 then (devc, xfer c, [])
      else
        let d = time_now c - transfers_reached_time_latest devc;
            (d1, t1, evs) = receive_switch h c devc
        in (receive_checks h d d1, t1, evs))"

section \<open>The event loop\<close>

text \<open>
  \<open>libusb_handle_events_timeout_completed\<close> invokes the callback of every transfer
  that has finished, one after the other: \<open>dispatch\<close> runs \<open>receive_transfer\<close>
  on each of them.
\<close>

fun dispatch :: "protocol_h \<Rightarrow> completion list \<Rightarrow> dev_context \<Rightarrow> dev_context" where
  "dispatch h [] devc = devc"
| "dispatch h (c # cs) devc = dispatch h cs (fst (receive_transfer h c devc))"

text \<open>
  \<open>handle_events\<close>, the periodic source of the session. With the abort latch
  set, every slot is cancelled, and then, slot by slot, events are handled, the transfer
  is freed and the slot is cleared. One more call handles events at the end of every
  tick. \<open>css\<close> lists, for each slot, the completions that the call of
  \<open>libusb_handle_events_timeout_completed\<close> made for that slot delivers (none when
  the list is too short), and \<open>cs\<close> the completions that the last call of the tick
  delivers.
\<close>

definition delivered :: "completion list list \<Rightarrow> nat \<Rightarrow> completion list" where
  "delivered css k = (if k < length css then css ! k else [])"

definition free_slot :: "protocol_h \<Rightarrow> completion list list \<Rightarrow> dev_context \<Rightarrow> nat \<Rightarrow> dev_context" where
  "free_slot h css devc i =
     (let d = dispatch h (delivered css i) devc in d\<lparr>transfers := (transfers d)[i := None]\<rparr>)"

definition handle_events ::
  "protocol_h \<Rightarrow> completion list list \<Rightarrow> completion list \<Rightarrow> dev_context \<Rightarrow> dev_context" where
  "handle_events h css cs devc =
     (let d1 = (if acq_aborted devc \<noteq> 0
                then foldl (free_slot h css) devc [0 ..< unat (NUM_MAX_TRANSFERS h)]
                else devc)
      in dispatch h cs d1)"

text \<open>
  What happens to a session once it is started: ticks of the event loop and stop
  requests from the caller, in any order.
\<close>

datatype driver_event =
    Handle_events "completion list list" "completion list"
  | Acquisition_stop

fun driver_step :: "protocol_h \<Rightarrow> driver_event \<Rightarrow> dev_context \<Rightarrow> dev_context" where
  "driver_step h (Handle_events css cs) devc = handle_events h css cs devc"
| "driver_step h Acquisition_stop devc = sipeed_slogic_acquisition_stop devc"

fun drive :: "protocol_h \<Rightarrow> driver_event list \<Rightarrow> dev_context \<Rightarrow> dev_context" where
  "drive h [] devc = devc"
| "drive h (e # es) devc = drive h es (driver_step h e devc)"

section \<open>Starting an acquisition\<close>

text \<open>
  The return value of \<open>sipeed_slogic_acquisition_start\<close>: \<open>SR_OK\<close>,
  \<open>SR_ERR_IO\<close>, or the negative code of a failed remote command. The two divisions
  of the probe trap when the divisor is zero: \<open>Division_by_zero\<close> stands for that.
\<close>

datatype sr_ret = SR_OK | SR_ERR_IO | Remote_failed c_int | Division_by_zero

text \<open>
  What one round of the probe meets: \<open>g_malloc\<close> gives no buffer,
  \<open>libusb_submit_transfer\<close> returns \<open>LIBUSB_ERROR_NO_MEM\<close>, it returns another
  error, or it succeeds.
\<close>

datatype trial = Malloc_failed | Submit_no_mem | Submit_failed | Submit_ok

text \<open>
  What one round of the pool fill meets: no buffer, no transfer, a failed submission
  (with its code), or success.
\<close>

datatype fill_trial = Fill_malloc_failed | Fill_alloc_failed | Fill_submit_failed c_int | Fill_ok

text \<open>
  What the collaborators answer during one start: the remote stop command, the
  \<open>libusb_alloc_transfer\<close> of the probe, the rounds of the probe and of the fill
  (by number), the monotonic time, and the remote run command.
\<close>

record start_env =
  remote_stop_ret :: c_int
  alloc_transfer_ok :: bool
  probe_trials :: "nat \<Rightarrow> trial"
  fill_trials :: "nat \<Rightarrow> fill_trial"
  start_time :: i64
  remote_run_ret :: c_int

text \<open>
  Lines 182 and 183: the byte need. The \<open>sr_info\<close> call that follows divides by
  \<open>devc->cur_samplerate\<close> (line 188).
\<close>

definition start_need :: "dev_context \<Rightarrow> dev_context" where
  "start_need devc =
     (let d1 = devc\<lparr>samples_got_nbytes := 0\<rparr>
      in d1\<lparr>samples_need_nbytes := cur_limit_samples d1 * cur_samplechannel d1 div 8\<rparr>)"

text \<open>Lines 182 to 192: the byte need and the plan for 125 ms per transfer.\<close>

definition start_reset :: "dev_context \<Rightarrow> dev_context" where
  "start_reset devc =
     (let d1 = devc\<lparr>samples_got_nbytes := 0\<rparr>;
          d2 = d1\<lparr>samples_need_nbytes := cur_limit_samples d1 * cur_samplechannel d1 div 8\<rparr>;
          d3 = d2\<lparr>per_transfer_duration := 125\<rparr>
      in d3\<lparr>per_transfer_nbytes :=
              per_transfer_duration d3 * cur_samplerate d3 * cur_samplechannel d3 div 8 div 1000\<rparr>)"

text \<open>
  Lines 201 and 202: the size is rounded up to a multiple of \<open>2*16*1024\<close> bytes
  (\<open>32767 = 2*16*1024-1\<close>) and the duration follows from it. The caller has checked
  the divisor.
\<close>

definition round_up_block :: "u64 \<Rightarrow> u64" where
  "round_up_block n = (n + 32767) AND NOT 32767"

definition plan_transfer :: "dev_context \<Rightarrow> dev_context" where
  "plan_transfer devc =
     (let d1 = devc\<lparr>per_transfer_nbytes := round_up_block (per_transfer_nbytes devc)\<rparr>
      in d1\<lparr>per_transfer_duration :=
              per_transfer_nbytes d1 * 1000 * 8 div (cur_samplerate d1 * cur_samplechannel d1)\<rparr>)"

text \<open>\<open>devc->per_transfer_nbytes >>= 1\<close>.\<close>

definition halve_transfer :: "dev_context \<Rightarrow> dev_context" where
  "halve_transfer devc = devc\<lparr>per_transfer_nbytes := drop_bit 1 (per_transfer_nbytes devc)\<rparr>"

lemma unat_u64_bound: "unat (w :: u64) < 18446744073709551616"
  using unsigned_less [of w, where 'a = nat] by simp

lemma unat_drop_bit_1: "unat (drop_bit 1 (w :: u64)) = unat w div 2"
  by (simp add: unat_drop_bit_eq drop_bit_eq_div unat_div)

lemma and_not_mask_push_bit: "(x :: u64) AND NOT (mask n) = push_bit n (drop_bit n x)"
  by (rule bit_word_eqI) (auto simp: bit_simps)

lemma numeral_32767_mask: "(32767 :: u64) = mask 15"
  by (simp add: mask_eq_exp_minus_1)

lemma unat_round_up_block: "unat (round_up_block p) = unat (p + 32767) div 32768 * 32768"
proof -
  have "unat (p + 32767) div 32768 * 32768 \<le> unat (p + 32767)" by simp
  also have "\<dots> < 2 ^ 64" using unat_u64_bound [of "p + 32767"] by simp
  finally have lt: "unat (p + 32767) div 32768 * 32768 < 2 ^ 64" .
  have "round_up_block p = push_bit 15 (drop_bit 15 (p + 32767))"
    unfolding round_up_block_def numeral_32767_mask by (rule and_not_mask_push_bit)
  then have "unat (round_up_block p)
      = take_bit 64 (push_bit 15 (unat (drop_bit 15 (p + 32767))))"
    by (simp add: unsigned_push_bit_eq)
  also have "\<dots> = take_bit 64 (unat (p + 32767) div 32768 * 32768)"
    by (simp add: unat_drop_bit_eq push_bit_eq_mult drop_bit_eq_div unat_div)
  also have "\<dots> = unat (p + 32767) div 32768 * 32768"
    using lt by (simp add: take_bit_nat_eq_self)
  finally show ?thesis .
qed

lemma unat_halved_block:
  "unat (drop_bit 1 (round_up_block p)) = unat (p + 32767) div 32768 * 16384"
proof -
  have "unat (drop_bit 1 (round_up_block p)) = unat (round_up_block p) div 2"
    by (rule unat_drop_bit_1)
  also have "\<dots> = unat (p + 32767) div 32768 * 32768 div 2"
    by (simp only: unat_round_up_block)
  also have "\<dots> = unat (p + 32767) div 32768 * 16384"
    by simp
  finally show ?thesis .
qed

lemma halved_block_decreases:
  assumes "32768 < drop_bit 1 (round_up_block p)"
  shows "unat (drop_bit 1 (round_up_block p)) < unat p"
proof -
  have "unat (32768 :: u64) < unat (drop_bit 1 (round_up_block p))"
    using assms by (simp only: word_less_nat_alt)
  then have a: "32768 < unat (p + 32767) div 32768 * 16384"
    by (simp only: unat_halved_block) simp
  have c: "unat (p + 32767) = (unat p + 32767) mod 2 ^ 64"
    by (simp add: unat_word_ariths)
  have d: "unat p < 2 ^ 64" using unat_u64_bound [of p] by simp
  have "unat (p + 32767) div 32768 * 16384 < unat p"
  proof (cases "unat p + 32767 < 2 ^ 64")
    case True
    then have "unat (p + 32767) = unat p + 32767" using c by simp
    then show ?thesis using a by simp
  next
    case False
    then have "unat (p + 32767) = unat p + 32767 - 2 ^ 64"
      using c d by (simp add: mod_if)
    then have "unat (p + 32767) < 32767" using d by simp
    then show ?thesis using a by simp
  qed
  then show ?thesis by (simp only: unat_halved_block)
qed

text \<open>
  The inner \<open>do ... while\<close> of the probe, lines 200 to 240, from round \<open>i\<close> on.
  \<open>Inl\<close> is a return out of \<open>sipeed_slogic_acquisition_start\<close> (with the device
  context at that point), \<open>Inr\<close> is the end of the loop. \<open>continue\<close> goes to the
  test \<open>devc->per_transfer_nbytes > 32*1024\<close>; \<open>break\<close> leaves without it.
\<close>

function probe_loop ::
  "(nat \<Rightarrow> trial) \<Rightarrow> nat \<Rightarrow> dev_context \<Rightarrow> (sr_ret \<times> dev_context) + dev_context" where
  "probe_loop env i devc =
     (if cur_samplerate devc * cur_samplechannel devc = 0
      then Inl (Division_by_zero,
                devc\<lparr>per_transfer_nbytes := round_up_block (per_transfer_nbytes devc)\<rparr>)
      else
        (case env i of
           Malloc_failed \<Rightarrow>
             (if 32768 < per_transfer_nbytes (halve_transfer (plan_transfer devc))
              then probe_loop env (Suc i) (halve_transfer (plan_transfer devc))
              else Inr (halve_transfer (plan_transfer devc)))
         | Submit_no_mem \<Rightarrow>
             (if 32768 < per_transfer_nbytes (halve_transfer (plan_transfer devc))
              then probe_loop env (Suc i) (halve_transfer (plan_transfer devc))
              else Inr (halve_transfer (plan_transfer devc)))
         | Submit_failed \<Rightarrow> Inl (SR_ERR_IO, plan_transfer devc)
         | Submit_ok \<Rightarrow>
             (let d = halve_transfer (plan_transfer devc)
              in if cur_samplerate d div 1000 * cur_samplechannel d div 8 = 0
                 then Inl (Division_by_zero, d)
                 else Inr (d\<lparr>per_transfer_duration :=
                              per_transfer_nbytes d
                                div (cur_samplerate d div 1000 * cur_samplechannel d div 8)\<rparr>))))"
  by pat_completeness auto
termination
proof (relation "measure (\<lambda>(env, i, devc). unat (per_transfer_nbytes devc))")
  show "wf (measure (\<lambda>(env, i, devc). unat (per_transfer_nbytes devc)))" by simp
next
  fix env :: "nat \<Rightarrow> trial" and i :: nat and devc :: dev_context
  assume "32768 < per_transfer_nbytes (halve_transfer (plan_transfer devc))"
  then have "32768 < drop_bit 1 (round_up_block (per_transfer_nbytes devc))"
    by (simp add: halve_transfer_def plan_transfer_def)
  then have "unat (drop_bit 1 (round_up_block (per_transfer_nbytes devc)))
      < unat (per_transfer_nbytes devc)"
    by (rule halved_block_decreases)
  then show "((env, Suc i, halve_transfer (plan_transfer devc)), env, i, devc)
      \<in> measure (\<lambda>(env, i, devc). unat (per_transfer_nbytes devc))"
    by (simp add: halve_transfer_def plan_transfer_def)
next
  fix env :: "nat \<Rightarrow> trial" and i :: nat and devc :: dev_context
  assume "32768 < per_transfer_nbytes (halve_transfer (plan_transfer devc))"
  then have "32768 < drop_bit 1 (round_up_block (per_transfer_nbytes devc))"
    by (simp add: halve_transfer_def plan_transfer_def)
  then have "unat (drop_bit 1 (round_up_block (per_transfer_nbytes devc)))
      < unat (per_transfer_nbytes devc)"
    by (rule halved_block_decreases)
  then show "((env, Suc i, halve_transfer (plan_transfer devc)), env, i, devc)
      \<in> measure (\<lambda>(env, i, devc). unat (per_transfer_nbytes devc))"
    by (simp add: halve_transfer_def plan_transfer_def)
qed

text \<open>
  The link probe, lines 194 to 243: the transfer is allocated, and the loop runs from
  its first round.
\<close>

definition link_probe :: "start_env \<Rightarrow> dev_context \<Rightarrow> (sr_ret \<times> dev_context) + dev_context" where
  "link_probe env devc =
     (if \<not> alloc_transfer_ok env then Inl (SR_ERR_IO, devc)
      else probe_loop (probe_trials env) 0 devc)"

text \<open>Lines 246 to 250: the latch, the counters and the slots are reset.\<close>

definition start_arm :: "protocol_h \<Rightarrow> dev_context \<Rightarrow> dev_context" where
  "start_arm h devc =
     devc\<lparr>acq_aborted := 0, num_transfers_used := 0, num_transfers_completed := 0,
          transfers := replicate (unat (NUM_MAX_TRANSFERS h)) None,
          transfers_reached_nbytes := 0\<rparr>"

text \<open>
  The test of the fill loop, line 254, and the transfer that one round builds with
  \<open>libusb_fill_bulk_transfer\<close> (a transfer from \<open>libusb_alloc_transfer\<close> is
  zeroed, so its status is the first of the enumeration).
\<close>

definition fill_wanted :: "protocol_h \<Rightarrow> dev_context \<Rightarrow> bool" where
  "fill_wanted h devc \<longleftrightarrow>
     num_transfers_used devc < NUM_MAX_TRANSFERS h
     \<and> samples_got_nbytes devc + num_transfers_used devc * per_transfer_nbytes devc
         < samples_need_nbytes devc"

definition fill_transfer :: "protocol_h \<Rightarrow> dev_context \<Rightarrow> libusb_transfer" where
  "fill_transfer h devc =
     \<lparr>status = LIBUSB_TRANSFER_COMPLETED,
      length_xfer = ucast (per_transfer_nbytes devc),
      actual_length = 0,
      timeout = transfer_timeout h (per_transfer_duration devc) (num_transfers_used devc),
      user_data = True\<rparr>"

definition register_transfer :: "dev_context \<Rightarrow> dev_context" where
  "register_transfer devc =
     (let d1 = devc\<lparr>transfers :=
                 (transfers devc)[unat (num_transfers_used devc) :=
                    Some (unat (num_transfers_used devc))]\<rparr>
      in d1\<lparr>num_transfers_used := num_transfers_used d1 + 1\<rparr>)"

text \<open>
  The fill loop, lines 254 to 283. The round is numbered by the transfers in use. It
  returns the device context and the transfers submitted, in order.
\<close>

function fill_pool ::
  "protocol_h \<Rightarrow> (nat \<Rightarrow> fill_trial) \<Rightarrow> dev_context \<times> libusb_transfer list
     \<Rightarrow> dev_context \<times> libusb_transfer list" where
  "fill_pool h env (devc, subs) =
     (if fill_wanted h devc
      then (case env (unat (num_transfers_used devc)) of
              Fill_ok \<Rightarrow> fill_pool h env (register_transfer devc, subs @ [fill_transfer h devc])
            | _ \<Rightarrow> (devc, subs))
      else (devc, subs))"
  by pat_completeness auto
termination
proof (relation "measure (\<lambda>(h, env, devc, subs).
    unat (NUM_MAX_TRANSFERS h) - unat (num_transfers_used devc))")
  show "wf (measure (\<lambda>(h, env, devc, subs).
    unat (NUM_MAX_TRANSFERS h) - unat (num_transfers_used devc)))" by simp
next
  fix h :: protocol_h and env :: "nat \<Rightarrow> fill_trial" and devc :: dev_context
    and subs :: "libusb_transfer list"
  assume "fill_wanted h devc"
  then have lt: "unat (num_transfers_used devc) < unat (NUM_MAX_TRANSFERS h)"
    by (simp add: fill_wanted_def word_less_nat_alt)
  moreover have "unat (NUM_MAX_TRANSFERS h) < 2 ^ 64"
    using unat_u64_bound [of "NUM_MAX_TRANSFERS h"] by simp
  ultimately have "unat (num_transfers_used devc + 1) = unat (num_transfers_used devc) + 1"
    by (simp add: unat_word_ariths)
  with lt show "((h, env, register_transfer devc, subs @ [fill_transfer h devc]),
      h, env, devc, subs)
    \<in> measure (\<lambda>(h, env, devc, subs).
        unat (NUM_MAX_TRANSFERS h) - unat (num_transfers_used devc))"
    by (simp add: register_transfer_def)
qed

text \<open>
  \<open>sipeed_slogic_acquisition_start\<close>. It returns the code, the device context and
  the transfers submitted by the fill. With a sample rate of zero the division in the
  argument list of \<open>sr_info\<close> (line 188) traps, after the byte need is set and
  before the plan.
\<close>

definition sipeed_slogic_acquisition_start ::
  "protocol_h \<Rightarrow> start_env \<Rightarrow> dev_context \<Rightarrow> sr_ret \<times> dev_context \<times> libusb_transfer list" where
  "sipeed_slogic_acquisition_start h env devc =
     (if sint (remote_stop_ret env) < 0 then (Remote_failed (remote_stop_ret env), devc, [])
      else if cur_samplerate (start_need devc) = 0
      then (Division_by_zero, start_need devc, [])
      else
        (case link_probe env (start_reset devc) of
           Inl (e, d) \<Rightarrow> (e, d, [])
         | Inr d1 \<Rightarrow>
             (let (d2, subs) = fill_pool h (fill_trials env) (start_arm h d1, []);
                  d3 = d2\<lparr>transfers_reached_time_start := start_time env\<rparr>;
                  d4 = d3\<lparr>transfers_reached_time_latest := transfers_reached_time_start d3\<rparr>
              in if num_transfers_used d4 = 0
                 then (SR_OK, sipeed_slogic_acquisition_stop d4, subs)
                 else if sint (remote_run_ret env) < 0
                 then (Remote_failed (remote_run_ret env), d4, subs)
                 else (SR_OK, d4, subs))))"

declare probe_loop.simps [simp del]
declare fill_pool.simps [simp del]

section \<open>Sessions\<close>

text \<open>
  libusb reports in \<open>actual_length\<close> the number of bytes transferred, which is
  never negative: \<open>completion_ok\<close> says so of a completion, \<open>event_ok\<close> of all
  completions of a tick.
\<close>

definition completion_ok :: "completion \<Rightarrow> bool" where
  "completion_ok c \<longleftrightarrow> 0 \<le> sint (actual_length (xfer c))"

fun event_ok :: "driver_event \<Rightarrow> bool" where
  "event_ok (Handle_events css cs) \<longleftrightarrow>
     list_all (list_all completion_ok) css \<and> list_all completion_ok cs"
| "event_ok Acquisition_stop = True"

text \<open>
  The two invariants of a session: the bytes received do not exceed the bytes needed;
  the transfers in use do not exceed the capacity of the pool, the array has that many
  slots, and while the latch is not set some transfer is in use.
\<close>

definition bytes_inv :: "dev_context \<Rightarrow> bool" where
  "bytes_inv d \<longleftrightarrow> samples_got_nbytes d \<le> samples_need_nbytes d"

definition pool_inv :: "protocol_h \<Rightarrow> dev_context \<Rightarrow> bool" where
  "pool_inv h d \<longleftrightarrow>
     num_transfers_used d \<le> NUM_MAX_TRANSFERS h
     \<and> length (transfers d) = unat (NUM_MAX_TRANSFERS h)
     \<and> (acq_aborted d = 1 \<or> num_transfers_used d \<noteq> 0)"

section \<open>Example values\<close>

text \<open>
  A pool of four transfers with a tolerance of five percent and roundings that leave
  every value as it is (arithmetic without rounding error); an idle device set to
  524288 samples of two channels at 1 MHz; collaborators that answer every round of the
  probe alike and never fail otherwise; a session that is streaming (one completion so
  far); and a completion with a given status, byte count and time.
\<close>

definition example_h :: protocol_h where
  "example_h = \<lparr>NUM_MAX_TRANSFERS = 4, TRANSFERS_DURATION_TOLERANCE = 1 / 20,
                 PATTERN_MODE_TEST_MAX_SPEED = 1,
                 round_float = (\<lambda>x. x), round_double = (\<lambda>x. x)\<rparr>"

definition example_idle :: dev_context where
  "example_idle =
     \<lparr>cur_limit_samples = 524288, cur_samplerate = 1000000, cur_samplechannel = 2,
      cur_pattern_mode_idx = 0, samples_need_nbytes = 0, samples_got_nbytes = 0,
      per_transfer_duration = 0, per_transfer_nbytes = 0, num_transfers_used = 0,
      num_transfers_completed = 0, transfers = [], transfers_reached_nbytes = 0,
      transfers_reached_nbytes_latest = 0, transfers_reached_time_start = 0,
      transfers_reached_time_latest = 0, acq_aborted = 0\<rparr>"

definition example_env :: "trial \<Rightarrow> start_env" where
  "example_env tr =
     \<lparr>remote_stop_ret = 0, alloc_transfer_ok = True, probe_trials = (\<lambda>_. tr),
      fill_trials = (\<lambda>_. Fill_ok), start_time = 1000, remote_run_ret = 0\<rparr>"

definition example_streaming :: dev_context where
  "example_streaming =
     \<lparr>cur_limit_samples = 524288, cur_samplerate = 1000000, cur_samplechannel = 2,
      cur_pattern_mode_idx = 0, samples_need_nbytes = 131072, samples_got_nbytes = 16384,
      per_transfer_duration = 65, per_transfer_nbytes = 16384, num_transfers_used = 4,
      num_transfers_completed = 1, transfers = [Some 0, Some 1, Some 2, Some 3],
      transfers_reached_nbytes = 16384, transfers_reached_nbytes_latest = 16384,
      transfers_reached_time_start = 1000, transfers_reached_time_latest = 66000,
      acq_aborted = 0\<rparr>"

definition example_completion :: "libusb_transfer_status \<Rightarrow> c_int \<Rightarrow> i64 \<Rightarrow> completion" where
  "example_completion st n now =
     \<lparr>xfer = \<lparr>status = st, length_xfer = 16384, actual_length = n, timeout = 341,
               user_data = True\<rparr>,
      time_now = now, submit_ret = 0\<rparr>"

text \<open>Collaborators with which the third submission of the fill fails.\<close>

definition example_env_short :: start_env where
  "example_env_short =
     (example_env Submit_ok)
       \<lparr>fill_trials := (\<lambda>k. if k < 2 then Fill_ok else Fill_submit_failed (- 1))\<rparr>"

text \<open>The session that a start of the idle device gives when the first round of the probe succeeds.\<close>

definition example_started :: dev_context where
  "example_started =
     fst (snd (sipeed_slogic_acquisition_start example_h (example_env Submit_ok) example_idle))"

text \<open>
  The same session after two completions of 16384 bytes each and a stop request from
  the caller: the abort latch is set, two completions are counted, four transfers are
  in use and the latest time stamp is 131000.
\<close>

definition example_stopped :: dev_context where
  "example_stopped =
     drive example_h
       [Handle_events []
          [example_completion LIBUSB_TRANSFER_COMPLETED 16384 66000,
           example_completion LIBUSB_TRANSFER_COMPLETED 16384 131000],
        Acquisition_stop]
       example_started"

section \<open>Conversions between the integer types\<close>

lemma uint_scast_nonneg:
  assumes "0 \<le> sint (a :: c_int)"
  shows "uint (scast a :: u64) = sint a"
proof -
  have lt: "sint a < 2147483648" using sint_lt [of a] by simp
  have "sint (scast a :: u64) = signed_take_bit 63 (sint a)"
    using signed_scast_eq [of a, where 'c = 64 and 'a = int] by simp
  also have "\<dots> = sint a"
    using assms lt by (intro signed_take_bit_int_eq_self) simp_all
  finally have s: "sint (scast a :: u64) = sint a" .
  have "uint (scast a :: u64) = take_bit 64 (sint (scast a :: u64))"
    using uint_sint [of "scast a :: u64"] by simp
  also have "\<dots> = sint a"
    unfolding s using assms lt by (intro take_bit_int_eq_self) simp_all
  finally show ?thesis .
qed

lemma uint_nonneg_sint:
  assumes "0 \<le> sint (a :: c_int)"
  shows "uint a = sint a"
proof -
  have lt: "sint a < 2147483648" using sint_lt [of a] by simp
  have "uint a = take_bit 32 (sint a)" using uint_sint [of a] by simp
  also have "\<dots> = sint a" using assms lt by (intro take_bit_int_eq_self) simp_all
  finally show ?thesis .
qed

lemma scast_nonneg:
  assumes "0 \<le> sint (a :: c_int)"
  shows "unat (scast a :: u64) = unat a \<and> unat a < 2147483648"
proof -
  have lt: "sint a < 2147483648" using sint_lt [of a] by simp
  have "uint (scast a :: u64) = uint a"
    using uint_scast_nonneg [OF assms] uint_nonneg_sint [OF assms] by simp
  moreover have "uint a < 2147483648" using uint_nonneg_sint [OF assms] lt by simp
  ultimately show ?thesis by (simp add: unat_eq_nat_uint del: nat_uint_eq)
qed

lemma scast_ucast_small:
  assumes "unat (r :: u64) < 2147483648"
  shows "(scast (ucast r :: c_int) :: u64) = r"
proof -
  have ur: "uint r < 2147483648" using assms by (simp add: unat_eq_nat_uint del: nat_uint_eq)
  have r0: "0 \<le> uint r" by simp
  have lo: "- 2147483648 \<le> uint r" by (rule order_trans [OF _ r0]) simp
  have "uint (ucast r :: c_int) = take_bit 32 (uint r)"
    using unsigned_ucast_eq [of r, where 'c = 32 and 'a = int] by simp
  also have "\<dots> = uint r" using ur r0 by (intro take_bit_int_eq_self) simp_all
  finally have u: "uint (ucast r :: c_int) = uint r" .
  have "sint (ucast r :: c_int) = signed_take_bit 31 (uint (ucast r :: c_int))"
    using sint_uint [of "ucast r :: c_int"] by simp
  also have "\<dots> = uint r" unfolding u using ur lo
    by (intro signed_take_bit_int_eq_self) simp_all
  finally have s: "sint (ucast r :: c_int) = uint r" .
  have "0 \<le> sint (ucast r :: c_int)" using s r0 by simp
  then have "uint (scast (ucast r :: c_int) :: u64) = sint (ucast r :: c_int)"
    by (rule uint_scast_nonneg)
  then have "uint (scast (ucast r :: c_int) :: u64) = uint r" using s by simp
  then show ?thesis by (simp only: word_uint_eq_iff)
qed

section \<open>The completion handler: properties\<close>

text \<open>What the \<open>switch\<close> leaves alone.\<close>

lemma receive_data_frame:
  "receive_data h c devc = (d, t, evs) \<Longrightarrow>
     num_transfers_completed d = num_transfers_completed devc
     \<and> per_transfer_duration d = per_transfer_duration devc
     \<and> acq_aborted d = acq_aborted devc
     \<and> transfers d = transfers devc
     \<and> samples_need_nbytes d = samples_need_nbytes devc"
  by (auto simp: receive_data_def Let_def split: if_splits)

lemma receive_switch_frame:
  "receive_switch h c devc = (d, t, evs) \<Longrightarrow>
     num_transfers_completed d = num_transfers_completed devc
     \<and> per_transfer_duration d = per_transfer_duration devc
     \<and> acq_aborted d = acq_aborted devc
     \<and> transfers d = transfers devc
     \<and> samples_need_nbytes d = samples_need_nbytes devc"
  by (cases "status (xfer c)") (auto simp: receive_switch_def dest: receive_data_frame)

lemma receive_checks_completed:
  "num_transfers_completed (receive_checks h gap d) = num_transfers_completed d + 1"
  by (simp add: receive_checks_def Let_def sipeed_slogic_acquisition_stop_def)

lemma receive_checks_zero:
  "num_transfers_used d = 0 \<Longrightarrow>
     num_transfers_used (receive_checks h gap d) = 0 \<and> acq_aborted (receive_checks h gap d) = 1"
  by (simp add: receive_checks_def Let_def sipeed_slogic_acquisition_stop_def)

lemma receive_checks_gap:
  "num_transfers_completed d \<noteq> 0 \<Longrightarrow> duration_exceeds h gap (per_transfer_duration d) \<Longrightarrow>
     num_transfers_used (receive_checks h gap d) = 0 \<and> acq_aborted (receive_checks h gap d) = 1"
  by (simp add: receive_checks_def Let_def sipeed_slogic_acquisition_stop_def)

section \<open>The byte counters\<close>

lemma clamp_actual_length_bound:
  assumes inv: "samples_got_nbytes d \<le> samples_need_nbytes d"
    and nn: "0 \<le> sint (actual_length t)"
  shows "unat (samples_got_nbytes d)
           + unat (scast (actual_length (clamp_actual_length d t)) :: u64)
         \<le> unat (samples_need_nbytes d)"
proof -
  let ?rem = "samples_need_nbytes d - samples_got_nbytes d"
  have rem: "unat ?rem = unat (samples_need_nbytes d) - unat (samples_got_nbytes d)"
    using inv by (simp add: unat_sub)
  have le: "unat (samples_got_nbytes d) \<le> unat (samples_need_nbytes d)"
    using inv by (simp add: word_le_nat_alt)
  show ?thesis
  proof (cases "?rem < (scast (actual_length t) :: u64)")
    case True
    then have "unat ?rem < unat (scast (actual_length t) :: u64)"
      by (simp add: word_less_nat_alt)
    then have "unat ?rem < 2147483648"
      using scast_nonneg [OF nn] by simp
    then have "(scast (ucast ?rem :: c_int) :: u64) = ?rem"
      by (rule scast_ucast_small)
    then show ?thesis using True rem le
      by (simp add: clamp_actual_length_def)
  next
    case False
    then have "unat (scast (actual_length t) :: u64) \<le> unat ?rem"
      by (simp add: word_less_nat_alt)
    then show ?thesis using False rem le
      by (simp add: clamp_actual_length_def)
  qed
qed

lemma clamp_actual_length_got:
  assumes inv: "samples_got_nbytes d \<le> samples_need_nbytes d"
    and nn: "0 \<le> sint (actual_length t)"
  shows "samples_got_nbytes d
           \<le> samples_got_nbytes d + scast (actual_length (clamp_actual_length d t))
         \<and> samples_got_nbytes d + scast (actual_length (clamp_actual_length d t))
           \<le> samples_need_nbytes d"
proof -
  let ?x = "scast (actual_length (clamp_actual_length d t)) :: u64"
  have b: "unat (samples_got_nbytes d) + unat ?x \<le> unat (samples_need_nbytes d)"
    using inv nn by (rule clamp_actual_length_bound)
  also have "\<dots> < 2 ^ LENGTH(64)"
    using unat_u64_bound [of "samples_need_nbytes d"] by simp
  finally have "unat (samples_got_nbytes d + ?x) = unat (samples_got_nbytes d) + unat ?x"
    by (simp only: unat_add_lem)
  then show ?thesis using b by (simp add: word_le_nat_alt)
qed

lemma receive_data_got:
  "samples_got_nbytes (fst (receive_data h c d))
     = samples_got_nbytes d + scast (actual_length (clamp_actual_length d (xfer c)))"
  by (simp add: receive_data_def Let_def clamp_actual_length_def)

lemma receive_switch_got:
  assumes "samples_got_nbytes d \<le> samples_need_nbytes d"
    and "0 \<le> sint (actual_length (xfer c))"
  shows "samples_got_nbytes d \<le> samples_got_nbytes (fst (receive_switch h c d))
     \<and> samples_got_nbytes (fst (receive_switch h c d)) \<le> samples_need_nbytes d"
  using assms clamp_actual_length_got [OF assms]
  by (cases "status (xfer c)") (simp_all add: receive_switch_def receive_data_got)

lemma receive_checks_got:
  "samples_got_nbytes (receive_checks h gap d) = samples_got_nbytes d
   \<and> samples_need_nbytes (receive_checks h gap d) = samples_need_nbytes d"
  by (simp add: receive_checks_def Let_def sipeed_slogic_acquisition_stop_def)

lemma receive_transfer_need:
  "samples_need_nbytes (fst (receive_transfer h c d)) = samples_need_nbytes d"
proof (cases "receive_switch h c d")
  case (fields d1 t1 evs)
  from receive_switch_frame [OF fields] show ?thesis using fields
    by (simp add: receive_transfer_def Let_def receive_checks_got)
qed

lemma receive_transfer_got:
  assumes "samples_got_nbytes d \<le> samples_need_nbytes d"
    and "0 \<le> sint (actual_length (xfer c))"
  shows "samples_got_nbytes d \<le> samples_got_nbytes (fst (receive_transfer h c d))
     \<and> samples_got_nbytes (fst (receive_transfer h c d)) \<le> samples_need_nbytes d"
proof (cases "receive_switch h c d")
  case (fields d1 t1 evs)
  from receive_switch_got [OF assms, of h] fields assms(1) show ?thesis
    by (simp add: receive_transfer_def Let_def receive_checks_got)
qed

lemma receive_transfer_bytes_inv:
  "bytes_inv d \<Longrightarrow> completion_ok c \<Longrightarrow> bytes_inv (fst (receive_transfer h c d))"
  using receive_transfer_got [of d c h] receive_transfer_need [of h c d]
  by (simp add: bytes_inv_def completion_ok_def)

lemma dispatch_bytes_inv:
  "bytes_inv d \<Longrightarrow> list_all completion_ok cs \<Longrightarrow> bytes_inv (dispatch h cs d)"
  by (induction cs arbitrary: d) (simp_all add: receive_transfer_bytes_inv)

lemma delivered_ok:
  "list_all (list_all completion_ok) css \<Longrightarrow> list_all completion_ok (delivered css k)"
  by (simp add: delivered_def list_all_length)

lemma free_slot_bytes_inv:
  "bytes_inv d \<Longrightarrow> list_all (list_all completion_ok) css \<Longrightarrow> bytes_inv (free_slot h css d i)"
  using dispatch_bytes_inv [of d "delivered css i" h] delivered_ok [of css i]
  by (simp add: free_slot_def Let_def bytes_inv_def)

lemma foldl_free_slot_bytes_inv:
  "bytes_inv d \<Longrightarrow> list_all (list_all completion_ok) css \<Longrightarrow>
     bytes_inv (foldl (free_slot h css) d ks)"
  by (induction ks arbitrary: d) (simp_all add: free_slot_bytes_inv)

lemma handle_events_bytes_inv:
  "bytes_inv d \<Longrightarrow> list_all (list_all completion_ok) css \<Longrightarrow>
   list_all completion_ok cs \<Longrightarrow> bytes_inv (handle_events h css cs d)"
  by (simp add: handle_events_def Let_def dispatch_bytes_inv foldl_free_slot_bytes_inv)

lemma driver_step_bytes_inv:
  "bytes_inv d \<Longrightarrow> event_ok e \<Longrightarrow> bytes_inv (driver_step h e d)"
  by (cases e) (simp_all add: handle_events_bytes_inv,
      simp add: bytes_inv_def sipeed_slogic_acquisition_stop_def)

lemma drive_bytes_inv:
  "bytes_inv d \<Longrightarrow> list_all event_ok es \<Longrightarrow> bytes_inv (drive h es d)"
  by (induction es arbitrary: d) (simp_all add: driver_step_bytes_inv)

text \<open>The probe and the fill leave the byte counters alone.\<close>

lemma halve_plan_bytes [simp]:
  "samples_got_nbytes (halve_transfer (plan_transfer d)) = samples_got_nbytes d"
  "samples_need_nbytes (halve_transfer (plan_transfer d)) = samples_need_nbytes d"
  by (simp_all add: halve_transfer_def plan_transfer_def Let_def)

lemma probe_loop_invariant:
  assumes "probe_loop env i d = Inr d'"
    and "I d"
    and step: "\<And>x. I x \<Longrightarrow> cur_samplerate x * cur_samplechannel x \<noteq> 0 \<Longrightarrow>
            32768 < per_transfer_nbytes (halve_transfer (plan_transfer x)) \<Longrightarrow>
            I (halve_transfer (plan_transfer x))"
    and continue: "\<And>x. I x \<Longrightarrow> cur_samplerate x * cur_samplechannel x \<noteq> 0 \<Longrightarrow>
            \<not> 32768 < per_transfer_nbytes (halve_transfer (plan_transfer x)) \<Longrightarrow>
            Q (halve_transfer (plan_transfer x))"
    and break: "\<And>x. I x \<Longrightarrow> cur_samplerate x * cur_samplechannel x \<noteq> 0 \<Longrightarrow>
            Q ((halve_transfer (plan_transfer x))
                 \<lparr>per_transfer_duration :=
                    per_transfer_nbytes (halve_transfer (plan_transfer x))
                      div (cur_samplerate (halve_transfer (plan_transfer x)) div 1000
                            * cur_samplechannel (halve_transfer (plan_transfer x)) div 8)\<rparr>)"
  shows "Q d'"
  using assms(1,2)
proof (induction env i d rule: probe_loop.induct)
  case (1 env i devc)
  let ?n = "halve_transfer (plan_transfer devc)"
  have nz: "cur_samplerate devc * cur_samplechannel devc \<noteq> 0"
    using "1.prems"(1) by (subst (asm) probe_loop.simps) (simp split: if_splits)
  show ?case
  proof (cases "env i")
    case Malloc_failed
    show ?thesis
    proof (cases "32768 < per_transfer_nbytes ?n")
      case True
      then have "probe_loop env (Suc i) ?n = Inr d'"
        using "1.prems"(1) nz Malloc_failed by (subst (asm) probe_loop.simps) simp
      moreover have "I ?n" using "1.prems"(2) nz True by (rule step)
      ultimately show ?thesis using "1.IH"(1) [OF nz Malloc_failed True] by simp
    next
      case False
      then have "d' = ?n"
        using "1.prems"(1) nz Malloc_failed by (subst (asm) probe_loop.simps) simp
      then show ?thesis using continue [OF "1.prems"(2) nz False] by simp
    qed
  next
    case Submit_no_mem
    show ?thesis
    proof (cases "32768 < per_transfer_nbytes ?n")
      case True
      then have "probe_loop env (Suc i) ?n = Inr d'"
        using "1.prems"(1) nz Submit_no_mem by (subst (asm) probe_loop.simps) simp
      moreover have "I ?n" using "1.prems"(2) nz True by (rule step)
      ultimately show ?thesis using "1.IH"(2) [OF nz Submit_no_mem True] by simp
    next
      case False
      then have "d' = ?n"
        using "1.prems"(1) nz Submit_no_mem by (subst (asm) probe_loop.simps) simp
      then show ?thesis using continue [OF "1.prems"(2) nz False] by simp
    qed
  next
    case Submit_failed
    then show ?thesis
      using "1.prems"(1) nz by (subst (asm) probe_loop.simps) simp
  next
    case Submit_ok
    then have "d' = ?n\<lparr>per_transfer_duration :=
        per_transfer_nbytes ?n div (cur_samplerate ?n div 1000 * cur_samplechannel ?n div 8)\<rparr>"
      using "1.prems"(1) nz
      by (subst (asm) probe_loop.simps) (simp add: Let_def split: if_splits)
    then show ?thesis using break [OF "1.prems"(2) nz] by simp
  qed
qed

lemma halve_plan_config [simp]:
  "cur_samplerate (halve_transfer (plan_transfer d)) = cur_samplerate d"
  "cur_samplechannel (halve_transfer (plan_transfer d)) = cur_samplechannel d"
  "per_transfer_nbytes (halve_transfer (plan_transfer d))
     = drop_bit 1 (round_up_block (per_transfer_nbytes d))"
  by (simp_all add: halve_transfer_def plan_transfer_def Let_def)

lemma probe_loop_Inl_cause:
  "probe_loop env i d = Inl (e, x) \<Longrightarrow>
     e = SR_ERR_IO
     \<or> (e = Division_by_zero
         \<and> (cur_samplerate d * cur_samplechannel d = 0
             \<or> cur_samplerate d div 1000 * cur_samplechannel d div 8 = 0))"
proof (induction env i d rule: probe_loop.induct)
  case (1 env i devc)
  let ?n = "halve_transfer (plan_transfer devc)"
  show ?case
  proof (cases "cur_samplerate devc * cur_samplechannel devc = 0")
    case True
    then show ?thesis using "1.prems" by (subst (asm) probe_loop.simps) simp
  next
    case nz: False
    show ?thesis
    proof (cases "env i")
      case Malloc_failed
      show ?thesis
      proof (cases "32768 < per_transfer_nbytes ?n")
        case True
        then have "probe_loop env (Suc i) ?n = Inl (e, x)"
          using "1.prems" nz Malloc_failed by (subst (asm) probe_loop.simps) simp
        then show ?thesis using "1.IH"(1) [OF nz Malloc_failed True] by simp
      next
        case False
        then show ?thesis
          using "1.prems" nz Malloc_failed by (subst (asm) probe_loop.simps) simp
      qed
    next
      case Submit_no_mem
      show ?thesis
      proof (cases "32768 < per_transfer_nbytes ?n")
        case True
        then have "probe_loop env (Suc i) ?n = Inl (e, x)"
          using "1.prems" nz Submit_no_mem by (subst (asm) probe_loop.simps) simp
        then show ?thesis using "1.IH"(2) [OF nz Submit_no_mem True] by simp
      next
        case False
        then show ?thesis
          using "1.prems" nz Submit_no_mem by (subst (asm) probe_loop.simps) simp
      qed
    next
      case Submit_failed
      then show ?thesis
        using "1.prems" nz by (subst (asm) probe_loop.simps) simp
    next
      case Submit_ok
      then show ?thesis
        using "1.prems" nz
        by (subst (asm) probe_loop.simps) (simp add: Let_def split: if_splits)
    qed
  qed
qed

lemma probe_loop_Inl:
  "probe_loop env i d = Inl (e, x) \<Longrightarrow> e = SR_ERR_IO \<or> e = Division_by_zero"
  using probe_loop_Inl_cause [of env i d e x] by blast

lemma probe_loop_bytes:
  assumes "probe_loop env i d = Inr d'"
  shows "samples_got_nbytes d' = samples_got_nbytes d
     \<and> samples_need_nbytes d' = samples_need_nbytes d"
  by (rule probe_loop_invariant [OF assms,
        where I = "\<lambda>x. samples_got_nbytes x = samples_got_nbytes d
                      \<and> samples_need_nbytes x = samples_need_nbytes d"])
     simp_all

lemma register_transfer_bytes [simp]:
  "samples_got_nbytes (register_transfer d) = samples_got_nbytes d"
  "samples_need_nbytes (register_transfer d) = samples_need_nbytes d"
  by (simp_all add: register_transfer_def Let_def)

lemma fill_pool_bytes:
  "fill_pool h env (d, subs) = (d', subs') \<Longrightarrow>
     samples_got_nbytes d' = samples_got_nbytes d
     \<and> samples_need_nbytes d' = samples_need_nbytes d"
proof (induction h env "(d, subs)" arbitrary: d subs rule: fill_pool.induct)
  case (1 h env devc subs)
  from "1.prems" show ?case
    apply (subst (asm) fill_pool.simps)
    apply (auto split: if_splits fill_trial.splits dest!: "1.hyps")
    done
qed

lemma start_bytes_inv:
  assumes "sipeed_slogic_acquisition_start h env d0 = (SR_OK, d1, subs)"
  shows "bytes_inv d1"
proof -
  from assms obtain p where p: "link_probe env (start_reset d0) = Inr p"
    by (auto simp: sipeed_slogic_acquisition_start_def link_probe_def
        split: if_splits sum.splits prod.splits dest: probe_loop_Inl)
  then have "samples_got_nbytes p = 0"
    by (auto simp: link_probe_def start_reset_def Let_def split: if_splits dest!: probe_loop_bytes)
  moreover obtain f fs where f: "fill_pool h (fill_trials env) (start_arm h p, []) = (f, fs)"
    by (cases "fill_pool h (fill_trials env) (start_arm h p, [])") auto
  moreover from fill_pool_bytes [OF f] have "samples_got_nbytes f = samples_got_nbytes p"
    by (simp add: start_arm_def)
  ultimately have "samples_got_nbytes d1 = 0"
    using assms p
    by (auto simp: sipeed_slogic_acquisition_start_def Let_def
        sipeed_slogic_acquisition_stop_def split: if_splits)
  then show ?thesis by (simp add: bytes_inv_def)
qed

section \<open>The pool\<close>

lemma word_pred_le:
  "(x :: u64) \<noteq> 0 \<Longrightarrow> x \<le> m \<Longrightarrow> x - 1 \<le> m"
  by (simp add: word_le_nat_alt unat_minus_one)

lemma receive_data_used:
  assumes "num_transfers_used d \<noteq> 0" and "num_transfers_used d \<le> m"
  shows "num_transfers_used (fst (receive_data h c d)) \<le> m"
  using assms word_pred_le [OF assms]
  by (simp add: receive_data_def Let_def)

lemma receive_switch_used:
  assumes "num_transfers_used d \<noteq> 0" and "num_transfers_used d \<le> m"
  shows "num_transfers_used (fst (receive_switch h c d)) \<le> m"
  using receive_data_used [OF assms] word_pred_le [OF assms]
  by (cases "status (xfer c)") (simp_all add: receive_switch_def)

lemma receive_checks_pool:
  "num_transfers_used d \<le> m \<Longrightarrow>
     num_transfers_used (receive_checks h gap d) \<le> m
     \<and> transfers (receive_checks h gap d) = transfers d
     \<and> (acq_aborted (receive_checks h gap d) = 1
          \<or> num_transfers_used (receive_checks h gap d) \<noteq> 0)"
  by (simp add: receive_checks_def Let_def sipeed_slogic_acquisition_stop_def)

lemma receive_transfer_pool_inv:
  assumes "pool_inv h d"
  shows "pool_inv h (fst (receive_transfer h c d))"
proof (cases "user_data (xfer c) \<and> acq_aborted d \<noteq> 1")
  case False
  then show ?thesis using assms by (auto simp: receive_transfer_def)
next
  case True
  then have nz: "num_transfers_used d \<noteq> 0" and le: "num_transfers_used d \<le> NUM_MAX_TRANSFERS h"
    using assms by (simp_all add: pool_inv_def)
  obtain d1 t1 evs where sw: "receive_switch h c d = (d1, t1, evs)"
    by (cases "receive_switch h c d") auto
  have "num_transfers_used d1 \<le> NUM_MAX_TRANSFERS h"
    using receive_switch_used [OF nz le, of h c] sw by simp
  from receive_checks_pool [OF this] receive_switch_frame [OF sw] assms True sw
  show ?thesis
    by (simp add: receive_transfer_def Let_def pool_inv_def)
qed

lemma dispatch_pool_inv:
  "pool_inv h d \<Longrightarrow> pool_inv h (dispatch h cs d)"
  by (induction cs arbitrary: d) (simp_all add: receive_transfer_pool_inv)

lemma free_slot_pool_inv:
  "pool_inv h d \<Longrightarrow> pool_inv h (free_slot h css d i)"
  using dispatch_pool_inv [of h d "delivered css i"]
  by (simp add: free_slot_def Let_def pool_inv_def)

lemma foldl_free_slot_pool_inv:
  "pool_inv h d \<Longrightarrow> pool_inv h (foldl (free_slot h css) d ks)"
  by (induction ks arbitrary: d) (simp_all add: free_slot_pool_inv)

lemma handle_events_pool_inv:
  "pool_inv h d \<Longrightarrow> pool_inv h (handle_events h css cs d)"
  by (simp add: handle_events_def Let_def dispatch_pool_inv foldl_free_slot_pool_inv)

lemma driver_step_pool_inv:
  "pool_inv h d \<Longrightarrow> pool_inv h (driver_step h e d)"
  by (cases e) (simp_all add: handle_events_pool_inv,
      simp add: pool_inv_def sipeed_slogic_acquisition_stop_def)

lemma drive_pool_inv:
  "pool_inv h d \<Longrightarrow> pool_inv h (drive h es d)"
  by (induction es arbitrary: d) (simp_all add: driver_step_pool_inv)

lemma register_transfer_used:
  assumes "num_transfers_used d < NUM_MAX_TRANSFERS h"
  shows "num_transfers_used (register_transfer d) \<le> NUM_MAX_TRANSFERS h
     \<and> length (transfers (register_transfer d)) = length (transfers d)
     \<and> acq_aborted (register_transfer d) = acq_aborted d"
  using assms by (simp add: register_transfer_def Let_def inc_le)

lemma fill_pool_pool:
  "fill_pool h env (d, subs) = (d', subs') \<Longrightarrow>
   num_transfers_used d \<le> NUM_MAX_TRANSFERS h \<Longrightarrow>
     num_transfers_used d' \<le> NUM_MAX_TRANSFERS h
     \<and> length (transfers d') = length (transfers d)
     \<and> acq_aborted d' = acq_aborted d"
proof (induction h env "(d, subs)" arbitrary: d subs rule: fill_pool.induct)
  case (1 h env devc subs)
  show ?case
  proof (cases "fill_wanted h devc \<and> env (unat (num_transfers_used devc)) = Fill_ok")
    case True
    then have lt: "num_transfers_used devc < NUM_MAX_TRANSFERS h"
      by (simp add: fill_wanted_def)
    from True have fw: "fill_wanted h devc"
      and ok: "env (unat (num_transfers_used devc)) = Fill_ok" by simp_all
    from True "1.prems"(1)
    have "fill_pool h env (register_transfer devc, subs @ [fill_transfer h devc]) = (d', subs')"
      by (subst (asm) fill_pool.simps) simp
    from "1.hyps" [OF fw ok this] register_transfer_used [OF lt]
    show ?thesis by simp
  next
    case False
    then have "d' = devc" using "1.prems"(1)
      by (subst (asm) fill_pool.simps) (auto split: if_splits fill_trial.splits)
    then show ?thesis using "1.prems"(2) by simp
  qed
qed

lemma start_pool_inv:
  assumes "sipeed_slogic_acquisition_start h env d0 = (SR_OK, d1, subs)"
  shows "pool_inv h d1"
proof -
  from assms obtain p where p: "link_probe env (start_reset d0) = Inr p"
    by (auto simp: sipeed_slogic_acquisition_start_def link_probe_def
        split: if_splits sum.splits prod.splits dest: probe_loop_Inl)
  obtain f fs where f: "fill_pool h (fill_trials env) (start_arm h p, []) = (f, fs)"
    by (cases "fill_pool h (fill_trials env) (start_arm h p, [])") auto
  have "num_transfers_used (start_arm h p) \<le> NUM_MAX_TRANSFERS h"
    by (simp add: start_arm_def)
  from fill_pool_pool [OF f this]
  have "num_transfers_used f \<le> NUM_MAX_TRANSFERS h"
    and "length (transfers f) = unat (NUM_MAX_TRANSFERS h)"
    and "acq_aborted f = 0"
    by (simp_all add: start_arm_def)
  then show ?thesis using assms p f
    by (auto simp: sipeed_slogic_acquisition_start_def Let_def pool_inv_def
        sipeed_slogic_acquisition_stop_def split: if_splits)
qed

lemma example_start_ok:
  "sipeed_slogic_acquisition_start example_h (example_env Submit_ok) example_idle
     = (SR_OK, example_started,
        snd (snd (sipeed_slogic_acquisition_start example_h (example_env Submit_ok)
          example_idle)))"
proof -
  have "fst (sipeed_slogic_acquisition_start example_h (example_env Submit_ok) example_idle)
      = SR_OK"
    by code_simp
  then show ?thesis
    unfolding example_started_def by (metis prod.collapse)
qed

lemma clamp_actual_length_min:
  assumes inv: "samples_got_nbytes d \<le> samples_need_nbytes d"
    and nn: "0 \<le> sint (actual_length t)"
  shows "unat (scast (actual_length (clamp_actual_length d t)) :: u64)
           = min (unat (actual_length t))
                 (unat (samples_need_nbytes d) - unat (samples_got_nbytes d))"
proof -
  let ?rem = "samples_need_nbytes d - samples_got_nbytes d"
  have rem: "unat ?rem = unat (samples_need_nbytes d) - unat (samples_got_nbytes d)"
    using inv by (simp add: unat_sub)
  have al: "unat (scast (actual_length t) :: u64) = unat (actual_length t)"
    using scast_nonneg [OF nn] by simp
  show ?thesis
  proof (cases "?rem < (scast (actual_length t) :: u64)")
    case True
    then have lt: "unat ?rem < unat (actual_length t)"
      using al by (simp add: word_less_nat_alt)
    then have "unat ?rem < 2147483648"
      using scast_nonneg [OF nn] by simp
    then have "(scast (ucast ?rem :: c_int) :: u64) = ?rem"
      by (rule scast_ucast_small)
    then show ?thesis using True rem lt
      by (simp add: clamp_actual_length_def)
  next
    case False
    then have "unat (actual_length t) \<le> unat ?rem"
      using al by (simp add: word_less_nat_alt)
    then show ?thesis using False rem al
      by (simp add: clamp_actual_length_def)
  qed
qed

lemma receive_transfer_data_got:
  assumes "user_data (xfer c)" and "acq_aborted d \<noteq> 1"
    and "status (xfer c) = LIBUSB_TRANSFER_COMPLETED \<or> status (xfer c) = LIBUSB_TRANSFER_TIMED_OUT"
  shows "samples_got_nbytes (fst (receive_transfer h c d))
     = samples_got_nbytes d + scast (actual_length (clamp_actual_length d (xfer c)))"
proof (cases "receive_switch h c d")
  case (fields d1 t1 evs)
  have "samples_got_nbytes (fst (receive_switch h c d))
      = samples_got_nbytes d + scast (actual_length (clamp_actual_length d (xfer c)))"
    using assms(3) by (auto simp: receive_switch_def receive_data_got)
  then show ?thesis using assms(1,2) fields
    by (simp add: receive_transfer_def Let_def receive_checks_got)
qed

lemma receive_data_zero:
  assumes "actual_length (clamp_actual_length d (xfer c)) = 0"
  shows "receive_data h c d
     = (d\<lparr>transfers_reached_nbytes_latest := scast (actual_length (xfer c)),
           transfers_reached_nbytes :=
             transfers_reached_nbytes d + scast (actual_length (xfer c)),
           samples_got_nbytes := samples_got_nbytes d,
           transfers_reached_time_latest := time_now c,
           num_transfers_used := num_transfers_used d - 1\<rparr>,
        clamp_actual_length d (xfer c), [])"
proof -
  have "clamp_actual_length
      (d\<lparr>transfers_reached_nbytes_latest := scast (actual_length (xfer c)),
         transfers_reached_nbytes :=
           transfers_reached_nbytes d + scast (actual_length (xfer c))\<rparr>) (xfer c)
      = clamp_actual_length d (xfer c)"
    by (simp add: clamp_actual_length_def)
  with assms show ?thesis
    by (simp add: receive_data_def Let_def)
qed

section \<open>The link probe\<close>

lemma halved_block_ge:
  assumes "p \<noteq> 0" and "unat p + 32767 < 2 ^ 64"
  shows "16384 dvd unat (drop_bit 1 (round_up_block p))
     \<and> 16384 \<le> unat (drop_bit 1 (round_up_block p))
     \<and> unat (drop_bit 1 (round_up_block p)) + 32767 < 2 ^ 64"
proof -
  have "unat (p + 32767) = (unat p + 32767) mod 2 ^ 64"
    by (simp add: unat_word_ariths)
  then have u: "unat (p + 32767) = unat p + 32767" using assms(2) by simp
  have "0 < unat p" using assms(1) by (simp add: unat_gt_0)
  then have "1 \<le> (unat p + 32767) div 32768" by (simp add: Suc_le_eq div_greater_zero_iff)
  then have "1 * 16384 \<le> (unat p + 32767) div 32768 * 16384"
    by (rule mult_le_mono1)
  moreover have "(unat p + 32767) div 32768 * 16384 + 32767 < 2 ^ 64"
    using assms(2) by simp
  ultimately show ?thesis unfolding unat_halved_block u by simp
qed

lemma start_reset_plan:
  "per_transfer_nbytes (start_reset d)
     = 125 * cur_samplerate d * cur_samplechannel d div 8 div 1000"
  "cur_samplerate (start_reset d) = cur_samplerate d"
  "cur_samplechannel (start_reset d) = cur_samplechannel d"
  by (simp_all add: start_reset_def Let_def)

lemma start_reset_plan_bound:
  "unat (per_transfer_nbytes (start_reset d)) + 32767 < 2 ^ 64"
proof -
  let ?x = "125 * cur_samplerate d * cur_samplechannel d"
  have "unat (?x div 8 div 1000) = unat ?x div 8 div 1000"
    by (simp add: unat_div)
  moreover have "unat ?x < 18446744073709551616" by (rule unat_u64_bound)
  ultimately show ?thesis by (simp add: start_reset_plan)
qed


lemma register_transfer_plan [simp]:
  "per_transfer_nbytes (register_transfer d) = per_transfer_nbytes d"
  "per_transfer_duration (register_transfer d) = per_transfer_duration d"
  by (simp_all add: register_transfer_def Let_def)

lemma fill_pool_plan:
  "fill_pool h env (d, subs) = (d', subs') \<Longrightarrow>
     per_transfer_nbytes d' = per_transfer_nbytes d
     \<and> per_transfer_duration d' = per_transfer_duration d"
proof (induction h env "(d, subs)" arbitrary: d subs rule: fill_pool.induct)
  case (1 h env devc subs)
  from "1.prems" show ?case
    apply (subst (asm) fill_pool.simps)
    apply (auto split: if_splits fill_trial.splits dest!: "1.hyps")
    done
qed

section \<open>The pool fill\<close>

lemma fill_wanted_transfers [simp]:
  "fill_wanted h (d\<lparr>transfers := ts, num_transfers_used := x\<rparr>)
     = fill_wanted h (d\<lparr>num_transfers_used := x\<rparr>)"
  "fill_transfer h (d\<lparr>transfers := ts, num_transfers_used := x\<rparr>)
     = fill_transfer h (d\<lparr>num_transfers_used := x\<rparr>)"
  by (simp_all add: fill_wanted_def fill_transfer_def)

lemma register_transfer_round:
  "fill_wanted h ((register_transfer d)\<lparr>num_transfers_used := x\<rparr>)
     = fill_wanted h (d\<lparr>num_transfers_used := x\<rparr>)"
  "fill_transfer h ((register_transfer d)\<lparr>num_transfers_used := x\<rparr>)
     = fill_transfer h (d\<lparr>num_transfers_used := x\<rparr>)"
  by (simp_all add: register_transfer_def Let_def)

lemma fill_pool_rounds:
  assumes "fill_pool h env (d, subs) = (d', subs')"
    and "length subs = unat (num_transfers_used d)"
  shows "length subs' = unat (num_transfers_used d')
     \<and> length subs \<le> length subs'
     \<and> (\<forall>k<length subs. subs' ! k = subs ! k)
     \<and> (\<forall>k. length subs \<le> k \<longrightarrow> k < length subs' \<longrightarrow>
            env k = Fill_ok
            \<and> fill_wanted h (d\<lparr>num_transfers_used := of_nat k\<rparr>)
            \<and> subs' ! k = fill_transfer h (d\<lparr>num_transfers_used := of_nat k\<rparr>))
     \<and> (\<not> fill_wanted h d' \<or> env (length subs') \<noteq> Fill_ok)"
  using assms
proof (induction h env "(d, subs)" arbitrary: d subs rule: fill_pool.induct)
  case (1 h env devc subs)
  show ?case
  proof (cases "fill_wanted h devc \<and> env (unat (num_transfers_used devc)) = Fill_ok")
    case True
    then have fw: "fill_wanted h devc"
      and ok: "env (unat (num_transfers_used devc)) = Fill_ok" by simp_all
    let ?r = "register_transfer devc" and ?t = "fill_transfer h devc"
    have lt: "unat (num_transfers_used devc) < unat (NUM_MAX_TRANSFERS h)"
      using fw by (simp add: fill_wanted_def word_less_nat_alt)
    moreover have "unat (NUM_MAX_TRANSFERS h) < 2 ^ 64"
      using unat_u64_bound [of "NUM_MAX_TRANSFERS h"] by simp
    ultimately have "unat (num_transfers_used devc + 1) = unat (num_transfers_used devc) + 1"
      by (simp add: unat_word_ariths)
    then have len: "length (subs @ [?t]) = unat (num_transfers_used ?r)"
      using "1.prems"(2) by (simp add: register_transfer_def Let_def)
    have rec: "fill_pool h env (?r, subs @ [?t]) = (d', subs')"
      using True "1.prems"(1) by (subst (asm) fill_pool.simps) simp
    note ih = "1.hyps" [OF fw ok rec len]
    have self: "devc\<lparr>num_transfers_used := of_nat (length subs)\<rparr> = devc"
      using "1.prems"(2) by simp
    have new: "env k = Fill_ok
        \<and> fill_wanted h (devc\<lparr>num_transfers_used := of_nat k\<rparr>)
        \<and> subs' ! k = fill_transfer h (devc\<lparr>num_transfers_used := of_nat k\<rparr>)"
      if k: "length subs \<le> k" "k < length subs'" for k
    proof (cases "k = length subs")
      case True
      have "subs' ! length subs = (subs @ [?t]) ! length subs"
        using ih by simp
      also have "\<dots> = ?t" by simp
      finally have "subs' ! length subs = ?t" .
      then show ?thesis using True fw ok "1.prems"(2) self by simp
    next
      case False
      then have "length (subs @ [?t]) \<le> k" using k(1) by simp
      with ih k(2) show ?thesis by (simp add: register_transfer_round)
    qed
    have old: "subs' ! k = subs ! k" if "k < length subs" for k
    proof -
      from that have "subs' ! k = (subs @ [?t]) ! k" using ih by simp
      then show ?thesis using that by (simp add: nth_append)
    qed
    from ih have l1: "length subs' = unat (num_transfers_used d')"
      and l2: "length (subs @ [?t]) \<le> length subs'"
      and l5: "\<not> fill_wanted h d' \<or> env (length subs') \<noteq> Fill_ok"
      by blast+
    from l2 have "length subs \<le> length subs'" by simp
    with l1 l5 new old show ?thesis by blast
  next
    case False
    then have "d' = devc \<and> subs' = subs" using "1.prems"(1)
      by (subst (asm) fill_pool.simps) (auto split: if_splits fill_trial.splits)
    then show ?thesis using "1.prems"(2) False by auto
  qed
qed

section \<open>Teardown\<close>

text \<open>
  With the abort latch set, a tick clears every slot: the callbacks that the event
  handling of the tick invokes return at once.
\<close>

lemma dispatch_latched:
  "acq_aborted d = 1 \<Longrightarrow> dispatch h cs d = d"
  by (induction cs) (simp_all add: receive_transfer_def)

lemma foldl_free_slot_latched:
  assumes "acq_aborted d = 1"
  shows "foldl (free_slot h css) d [0 ..< n]
     = d\<lparr>transfers := map (\<lambda>i. if i < n then None else transfers d ! i)
                          [0 ..< length (transfers d)]\<rparr>"
proof (induction n)
  case 0
  have "map (\<lambda>i. transfers d ! i) [0 ..< length (transfers d)] = transfers d"
    by (rule map_nth)
  then show ?case by simp
next
  case (Suc n)
  let ?m = "map (\<lambda>i. if i < n then None else transfers d ! i) [0 ..< length (transfers d)]"
  have "?m[n := None]
      = map (\<lambda>i. if i < Suc n then None else transfers d ! i) [0 ..< length (transfers d)]"
    by (rule nth_equalityI) (auto simp: nth_list_update less_Suc_eq)
  with Suc assms show ?case
    by (simp add: free_slot_def Let_def dispatch_latched)
qed

lemma handle_events_latched:
  assumes "acq_aborted d = 1" and "length (transfers d) = unat (NUM_MAX_TRANSFERS h)"
  shows "transfers (handle_events h css cs d) = replicate (unat (NUM_MAX_TRANSFERS h)) None
     \<and> acq_aborted (handle_events h css cs d) = 1"
proof -
  let ?n = "unat (NUM_MAX_TRANSFERS h)"
  let ?d = "foldl (free_slot h css) d [0 ..< ?n]"
  have f: "?d = d\<lparr>transfers := map (\<lambda>i. if i < ?n then None else transfers d ! i)
                                   [0 ..< length (transfers d)]\<rparr>"
    using assms(1) by (rule foldl_free_slot_latched)
  have "map (\<lambda>i. if i < ?n then None else transfers d ! i) [0 ..< length (transfers d)]
      = replicate ?n None"
    by (rule nth_equalityI) (simp_all add: assms(2))
  with f have t: "transfers ?d = replicate ?n None" and a: "acq_aborted ?d = 1"
    using assms(1) by simp_all
  have "handle_events h css cs d = dispatch h cs ?d"
    using assms(1) by (simp add: handle_events_def Let_def)
  also have "\<dots> = ?d" using a by (rule dispatch_latched)
  finally show ?thesis using t a by simp
qed

lemma link_probe_Inr_divisor:
  "link_probe env d = Inr d1 \<Longrightarrow> cur_samplerate d * cur_samplechannel d \<noteq> 0"
  by (auto simp: link_probe_def probe_loop.simps [of _ 0 d] split: if_splits)

lemma samplerate_nonzero:
  "cur_samplerate d * cur_samplechannel d \<noteq> 0 \<Longrightarrow> cur_samplerate (start_need d) \<noteq> 0"
  by (auto simp: start_need_def Let_def)

lemma example_stopped_state:
  "acq_aborted example_stopped = 1 \<and> num_transfers_used example_stopped = 4
   \<and> num_transfers_completed example_stopped = 2
   \<and> samples_got_nbytes example_stopped = 32768
   \<and> transfers_reached_time_latest example_stopped = 131000
   \<and> per_transfer_duration example_stopped = 65"
  by code_simp

section \<open>The claims about the completion handler\<close>

text \<open>
  C10. When the abort latch \<open>acq_aborted\<close> is already set at the call, the handler
  returns at once: the whole device context (so the bytes received, the transfers in
  use, the completions counted, the throughput counters and the latest time stamp) is
  unchanged, the transfer is unchanged, nothing is forwarded to the consumer and
  nothing is submitted.
\<close>

theorem receive_transfer_aborted:
  "acq_aborted devc = 1 \<Longrightarrow> receive_transfer h c devc = (devc, xfer c, [])"
  by (simp add: receive_transfer_def)

theorem receive_transfer_aborted_witness:
  "acq_aborted (sipeed_slogic_acquisition_stop example_streaming) = 1
   \<and> receive_transfer example_h (example_completion LIBUSB_TRANSFER_COMPLETED 16384 70000)
        (sipeed_slogic_acquisition_stop example_streaming)
      = (sipeed_slogic_acquisition_stop example_streaming,
         xfer (example_completion LIBUSB_TRANSFER_COMPLETED 16384 70000), [])"
  using receive_transfer_aborted [of "sipeed_slogic_acquisition_stop example_streaming"
      example_h "example_completion LIBUSB_TRANSFER_COMPLETED 16384 70000"]
  by (simp add: sipeed_slogic_acquisition_stop_def)

text \<open>
  C9, as the claim states it, fails: the count of completions is not incremented in
  every invocation. With the abort latch set the handler returns before it counts.
\<close>

theorem completed_count_aborted_counterexample:
  "num_transfers_completed
     (fst (receive_transfer example_h (example_completion LIBUSB_TRANSFER_COMPLETED 16384 70000)
        (sipeed_slogic_acquisition_stop example_streaming)))
   \<noteq> num_transfers_completed (sipeed_slogic_acquisition_stop example_streaming) + 1"
  by (simp add: receive_transfer_def sipeed_slogic_acquisition_stop_def example_streaming_def
      example_completion_def)

text \<open>
  C9, amended. In every invocation that gets past the two early returns (the transfer
  carries a device instance and the abort latch is not set at the call), whatever the
  status of the transfer, \<open>num_transfers_completed\<close> is incremented by one (in 64-bit
  arithmetic).
\<close>

theorem receive_transfer_completed_count:
  "user_data (xfer c) \<Longrightarrow> acq_aborted devc \<noteq> 1 \<Longrightarrow>
     num_transfers_completed (fst (receive_transfer h c devc))
       = num_transfers_completed devc + 1"
  by (auto simp: receive_transfer_def Let_def receive_checks_completed
      split: prod.splits dest: receive_switch_frame)

theorem receive_transfer_completed_count_witness:
  "user_data (xfer (example_completion LIBUSB_TRANSFER_ERROR 0 70000))
   \<and> acq_aborted example_streaming \<noteq> 1
   \<and> num_transfers_completed
        (fst (receive_transfer example_h (example_completion LIBUSB_TRANSFER_ERROR 0 70000)
           example_streaming)) = 2"
  using receive_transfer_completed_count [of "example_completion LIBUSB_TRANSFER_ERROR 0 70000"
      example_streaming example_h]
  by (simp add: example_completion_def example_streaming_def)

text \<open>
  C6, as the claim states it, fails: not every completion with the status stall forces
  \<open>num_transfers_used\<close> to zero. After a stop request of the caller the latch is
  set while four transfers are in use; a completion with the status stall then returns
  at lines 39 and 40 and leaves the count at four.
\<close>

theorem fatal_status_latched_counterexample:
  "acq_aborted example_stopped = 1
   \<and> num_transfers_used example_stopped = 4
   \<and> user_data (xfer (example_completion LIBUSB_TRANSFER_STALL 0 201000))
   \<and> status (xfer (example_completion LIBUSB_TRANSFER_STALL 0 201000)) = LIBUSB_TRANSFER_STALL
   \<and> num_transfers_used
        (fst (receive_transfer example_h (example_completion LIBUSB_TRANSFER_STALL 0 201000)
           example_stopped)) = 4
   \<and> num_transfers_used
        (fst (receive_transfer example_h (example_completion LIBUSB_TRANSFER_STALL 0 201000)
           example_stopped)) \<noteq> 0"
  by code_simp

text \<open>
  C6, amended. A completion with the status overflow, stall or no-device that the
  handler gets while the abort latch is not set forces \<open>num_transfers_used\<close> to
  zero, whatever the count and the other slots were, and the stop that follows sets the
  latch: the one event ends the session, and the next tick clears every slot. With the
  latch already set the handler returns at once and the count stays as it is; the latch
  stays set.
\<close>

theorem receive_transfer_fatal:
  assumes "user_data (xfer c)"
    and "status (xfer c) = LIBUSB_TRANSFER_OVERFLOW \<or> status (xfer c) = LIBUSB_TRANSFER_STALL
           \<or> status (xfer c) = LIBUSB_TRANSFER_NO_DEVICE"
  shows "acq_aborted (fst (receive_transfer h c devc)) = 1
     \<and> (acq_aborted devc \<noteq> 1 \<longrightarrow> num_transfers_used (fst (receive_transfer h c devc)) = 0)
     \<and> (acq_aborted devc = 1 \<longrightarrow>
          num_transfers_used (fst (receive_transfer h c devc)) = num_transfers_used devc)
     \<and> (length (transfers devc) = unat (NUM_MAX_TRANSFERS h) \<longrightarrow>
          transfers (handle_events h css cs (fst (receive_transfer h c devc)))
            = replicate (unat (NUM_MAX_TRANSFERS h)) None)"
proof -
  let ?d = "fst (receive_transfer h c devc)"
  have main: "acq_aborted ?d = 1
     \<and> (acq_aborted devc \<noteq> 1 \<longrightarrow> num_transfers_used ?d = 0)
     \<and> (acq_aborted devc = 1 \<longrightarrow> num_transfers_used ?d = num_transfers_used devc)
     \<and> transfers ?d = transfers devc"
  proof (cases "acq_aborted devc = 1")
    case True
    then show ?thesis by (simp add: receive_transfer_def)
  next
    case False
    with assms show ?thesis
      by (auto simp: receive_transfer_def receive_switch_def receive_checks_zero
          receive_checks_def Let_def sipeed_slogic_acquisition_stop_def)
  qed
  then have "transfers (handle_events h css cs ?d) = replicate (unat (NUM_MAX_TRANSFERS h)) None"
    if "length (transfers devc) = unat (NUM_MAX_TRANSFERS h)"
    using that handle_events_latched [of ?d h css cs] by simp
  with main show ?thesis by blast
qed

theorem receive_transfer_fatal_witness:
  "user_data (xfer (example_completion LIBUSB_TRANSFER_STALL 0 70000))
   \<and> status (xfer (example_completion LIBUSB_TRANSFER_STALL 0 70000)) = LIBUSB_TRANSFER_STALL
   \<and> acq_aborted example_streaming \<noteq> 1
   \<and> length (transfers example_streaming) = unat (NUM_MAX_TRANSFERS example_h)
   \<and> num_transfers_used example_streaming = 4
   \<and> num_transfers_used
        (fst (receive_transfer example_h (example_completion LIBUSB_TRANSFER_STALL 0 70000)
           example_streaming)) = 0
   \<and> acq_aborted
        (fst (receive_transfer example_h (example_completion LIBUSB_TRANSFER_STALL 0 70000)
           example_streaming)) = 1
   \<and> transfers (handle_events example_h [] []
        (fst (receive_transfer example_h (example_completion LIBUSB_TRANSFER_STALL 0 70000)
           example_streaming))) = [None, None, None, None]"
proof -
  have u: "user_data (xfer (example_completion LIBUSB_TRANSFER_STALL 0 70000))"
    by (simp add: example_completion_def)
  have s: "status (xfer (example_completion LIBUSB_TRANSFER_STALL 0 70000))
      = LIBUSB_TRANSFER_STALL"
    by (simp add: example_completion_def)
  have a: "acq_aborted example_streaming \<noteq> 1"
    by (simp add: example_streaming_def)
  have l: "length (transfers example_streaming) = unat (NUM_MAX_TRANSFERS example_h)"
    by (simp add: example_streaming_def example_h_def)
  have n: "num_transfers_used example_streaming = 4"
    by (simp add: example_streaming_def)
  have r: "replicate (unat (NUM_MAX_TRANSFERS example_h)) (None :: nat option)
      = [None, None, None, None]"
    by code_simp
  from receive_transfer_fatal [OF u disjI2 [OF disjI1 [OF s]],
      of example_h example_streaming "[]" "[]"] u s a l n r
  show ?thesis by simp
qed

text \<open>
  C7, as the claim states it, fails: not every completion that comes after a gap above
  the threshold forces \<open>num_transfers_used\<close> to zero. After two completions and a
  stop request of the caller the latch is set while four transfers are in use; a
  completion 70 ms after the latest one (the threshold is 68.25 ms) then returns at
  lines 39 and 40 and leaves the count at four.
\<close>

theorem gap_latched_counterexample:
  "acq_aborted example_stopped = 1
   \<and> num_transfers_completed example_stopped = 2
   \<and> num_transfers_used example_stopped = 4
   \<and> user_data (xfer (example_completion LIBUSB_TRANSFER_COMPLETED 16384 201000))
   \<and> duration_exceeds example_h
        (time_now (example_completion LIBUSB_TRANSFER_COMPLETED 16384 201000)
           - transfers_reached_time_latest example_stopped)
        (per_transfer_duration example_stopped)
   \<and> num_transfers_used
        (fst (receive_transfer example_h
           (example_completion LIBUSB_TRANSFER_COMPLETED 16384 201000) example_stopped)) = 4
   \<and> num_transfers_used
        (fst (receive_transfer example_h
           (example_completion LIBUSB_TRANSFER_COMPLETED 16384 201000) example_stopped)) \<noteq> 0"
  by code_simp

text \<open>
  C7, amended. In a completion that the handler gets while the abort latch is not set,
  when completions have been counted before and the gap since the latest time stamp,
  in milliseconds, exceeds \<open>(TRANSFERS_DURATION_TOLERANCE + 1) *
  per_transfer_duration\<close> (both sides as the code computes them, in floating point),
  \<open>num_transfers_used\<close> is forced to zero, whatever the status of the transfer (also
  when it is completed), the stop that follows sets the latch, and the next tick clears
  every slot. With the latch already set the handler returns at once and the count
  stays as it is; the latch stays set.
\<close>

theorem receive_transfer_gap:
  assumes "user_data (xfer c)"
    and "num_transfers_completed devc \<noteq> 0"
    and "round_double h
           (round_double h (of_int (sint (time_now c - transfers_reached_time_latest devc)))
              / round_double h 1000)
         > round_float h (round_float h (TRANSFERS_DURATION_TOLERANCE h + 1)
                          * round_float h (of_nat (unat (per_transfer_duration devc))))"
  shows "acq_aborted (fst (receive_transfer h c devc)) = 1
     \<and> (acq_aborted devc \<noteq> 1 \<longrightarrow> num_transfers_used (fst (receive_transfer h c devc)) = 0)
     \<and> (acq_aborted devc = 1 \<longrightarrow>
          num_transfers_used (fst (receive_transfer h c devc)) = num_transfers_used devc)
     \<and> (length (transfers devc) = unat (NUM_MAX_TRANSFERS h) \<longrightarrow>
          transfers (handle_events h css cs (fst (receive_transfer h c devc)))
            = replicate (unat (NUM_MAX_TRANSFERS h)) None)"
proof -
  let ?d = "fst (receive_transfer h c devc)"
  have main: "acq_aborted ?d = 1
     \<and> (acq_aborted devc \<noteq> 1 \<longrightarrow> num_transfers_used ?d = 0)
     \<and> (acq_aborted devc = 1 \<longrightarrow> num_transfers_used ?d = num_transfers_used devc)
     \<and> transfers ?d = transfers devc"
  proof (cases "acq_aborted devc = 1")
    case True
    then show ?thesis by (simp add: receive_transfer_def)
  next
    case False
    obtain d t evs where sw: "receive_switch h c devc = (d, t, evs)"
      by (cases "receive_switch h c devc") auto
    note fr = receive_switch_frame [OF sw]
    from fr assms(2,3)
    have "num_transfers_completed d \<noteq> 0"
      and "duration_exceeds h (time_now c - transfers_reached_time_latest devc)
             (per_transfer_duration d)"
      by (simp_all add: duration_exceeds_def tolerance_threshold_def)
    then have "num_transfers_used
          (receive_checks h (time_now c - transfers_reached_time_latest devc) d) = 0
        \<and> acq_aborted
          (receive_checks h (time_now c - transfers_reached_time_latest devc) d) = 1"
      by (rule receive_checks_gap)
    moreover have "transfers
          (receive_checks h (time_now c - transfers_reached_time_latest devc) d)
        = transfers devc"
      using fr by (simp add: receive_checks_def Let_def sipeed_slogic_acquisition_stop_def)
    ultimately show ?thesis using assms(1) False sw
      by (simp add: receive_transfer_def Let_def)
  qed
  then have "transfers (handle_events h css cs ?d) = replicate (unat (NUM_MAX_TRANSFERS h)) None"
    if "length (transfers devc) = unat (NUM_MAX_TRANSFERS h)"
    using that handle_events_latched [of ?d h css cs] by simp
  with main show ?thesis by blast
qed

theorem receive_transfer_gap_witness:
  "user_data (xfer (example_completion LIBUSB_TRANSFER_COMPLETED 16384 136000))
   \<and> num_transfers_completed example_streaming \<noteq> 0
   \<and> round_double example_h
        (round_double example_h
           (of_int (sint (time_now (example_completion LIBUSB_TRANSFER_COMPLETED 16384 136000)
                            - transfers_reached_time_latest example_streaming)))
         / round_double example_h 1000)
       > round_float example_h
           (round_float example_h (TRANSFERS_DURATION_TOLERANCE example_h + 1)
            * round_float example_h (of_nat (unat (per_transfer_duration example_streaming))))
   \<and> status (xfer (example_completion LIBUSB_TRANSFER_COMPLETED 16384 136000))
        = LIBUSB_TRANSFER_COMPLETED
   \<and> acq_aborted example_streaming \<noteq> 1
   \<and> length (transfers example_streaming) = unat (NUM_MAX_TRANSFERS example_h)
   \<and> num_transfers_used example_streaming = 4
   \<and> num_transfers_used
        (fst (receive_transfer example_h
           (example_completion LIBUSB_TRANSFER_COMPLETED 16384 136000) example_streaming)) = 0
   \<and> acq_aborted
        (fst (receive_transfer example_h
           (example_completion LIBUSB_TRANSFER_COMPLETED 16384 136000) example_streaming)) = 1
   \<and> transfers (handle_events example_h [] []
        (fst (receive_transfer example_h
           (example_completion LIBUSB_TRANSFER_COMPLETED 16384 136000) example_streaming)))
       = [None, None, None, None]"
proof -
  have u: "user_data (xfer (example_completion LIBUSB_TRANSFER_COMPLETED 16384 136000))"
    by (simp add: example_completion_def)
  have a: "acq_aborted example_streaming \<noteq> 1"
    by (simp add: example_streaming_def)
  have n: "num_transfers_completed example_streaming \<noteq> 0"
    by (simp add: example_streaming_def)
  have g: "round_double example_h
        (round_double example_h
           (of_int (sint (time_now (example_completion LIBUSB_TRANSFER_COMPLETED 16384 136000)
                            - transfers_reached_time_latest example_streaming)))
         / round_double example_h 1000)
       > round_float example_h
           (round_float example_h (TRANSFERS_DURATION_TOLERANCE example_h + 1)
            * round_float example_h (of_nat (unat (per_transfer_duration example_streaming))))"
    by (simp add: example_completion_def example_streaming_def example_h_def)
  have s: "status (xfer (example_completion LIBUSB_TRANSFER_COMPLETED 16384 136000))
        = LIBUSB_TRANSFER_COMPLETED"
    by (simp add: example_completion_def)
  have l: "length (transfers example_streaming) = unat (NUM_MAX_TRANSFERS example_h)"
    by (simp add: example_streaming_def example_h_def)
  have m: "num_transfers_used example_streaming = 4"
    by (simp add: example_streaming_def)
  have r: "replicate (unat (NUM_MAX_TRANSFERS example_h)) (None :: nat option)
      = [None, None, None, None]"
    by code_simp
  from receive_transfer_gap [OF u n g, of "[]" "[]"] u a n g s l m r
  show ?thesis by simp
qed

text \<open>
  C8, as the claim states it, fails: not every completion with the status timed-out and
  no bytes decrements \<open>num_transfers_used\<close>. After a stop request of the caller the
  latch is set while four transfers are in use; such a completion then returns at lines
  39 and 40 and leaves the count at four, not three.
\<close>

theorem zero_length_latched_counterexample:
  "acq_aborted example_stopped = 1
   \<and> num_transfers_used example_stopped = 4
   \<and> user_data (xfer (example_completion LIBUSB_TRANSFER_TIMED_OUT 0 140000))
   \<and> status (xfer (example_completion LIBUSB_TRANSFER_TIMED_OUT 0 140000))
        = LIBUSB_TRANSFER_TIMED_OUT
   \<and> actual_length (clamp_actual_length example_stopped
        (xfer (example_completion LIBUSB_TRANSFER_TIMED_OUT 0 140000))) = 0
   \<and> num_transfers_used
        (fst (receive_transfer example_h (example_completion LIBUSB_TRANSFER_TIMED_OUT 0 140000)
           example_stopped)) = 4
   \<and> num_transfers_used
        (fst (receive_transfer example_h (example_completion LIBUSB_TRANSFER_TIMED_OUT 0 140000)
           example_stopped)) \<noteq> num_transfers_used example_stopped - 1"
  by code_simp

text \<open>
  C8, amended. For every completion with the status completed or timed-out whose
  \<open>actual_length\<close> is zero after it is cut down to the remaining need, the handler
  calls neither the consumer nor \<open>libusb_submit_transfer\<close> and the bytes received are
  unchanged. When the handler gets it while the abort latch is not set, the
  \<open>switch\<close> retires the slot by decrementing \<open>num_transfers_used\<close>, and at the end
  of the handler the count is that value unless the gap check has forced it to zero.
  With the latch already set the handler returns at once and the count stays as it is.
\<close>

theorem zero_length_retires:
  assumes "status (xfer c) = LIBUSB_TRANSFER_COMPLETED
           \<or> status (xfer c) = LIBUSB_TRANSFER_TIMED_OUT"
    and "actual_length (clamp_actual_length d (xfer c)) = 0"
  shows "snd (snd (receive_transfer h c d)) = []
     \<and> samples_got_nbytes (fst (receive_transfer h c d)) = samples_got_nbytes d
     \<and> (user_data (xfer c) \<and> acq_aborted d \<noteq> 1 \<longrightarrow>
          num_transfers_used (fst (receive_switch h c d)) = num_transfers_used d - 1
          \<and> (num_transfers_used (fst (receive_transfer h c d)) = num_transfers_used d - 1
               \<or> num_transfers_used (fst (receive_transfer h c d)) = 0))
     \<and> (acq_aborted d = 1 \<longrightarrow>
          num_transfers_used (fst (receive_transfer h c d)) = num_transfers_used d)"
proof (cases "user_data (xfer c) \<and> acq_aborted d \<noteq> 1")
  case False
  then show ?thesis by (auto simp: receive_transfer_def)
next
  case True
  have sw: "receive_switch h c d = receive_data h c d"
    using assms(1) by (auto simp: receive_switch_def)
  show ?thesis
    using True
    by (simp add: receive_transfer_def sw receive_data_zero [OF assms(2)]
        receive_checks_def Let_def sipeed_slogic_acquisition_stop_def)
qed

theorem zero_length_retires_witness:
  "status (xfer (example_completion LIBUSB_TRANSFER_TIMED_OUT 0 70000))
        = LIBUSB_TRANSFER_TIMED_OUT
   \<and> actual_length (clamp_actual_length example_streaming
        (xfer (example_completion LIBUSB_TRANSFER_TIMED_OUT 0 70000))) = 0
   \<and> user_data (xfer (example_completion LIBUSB_TRANSFER_TIMED_OUT 0 70000))
   \<and> acq_aborted example_streaming \<noteq> 1
   \<and> snd (snd (receive_transfer example_h
        (example_completion LIBUSB_TRANSFER_TIMED_OUT 0 70000) example_streaming)) = []
   \<and> samples_got_nbytes (fst (receive_transfer example_h
        (example_completion LIBUSB_TRANSFER_TIMED_OUT 0 70000) example_streaming)) = 16384
   \<and> num_transfers_used example_streaming = 4
   \<and> num_transfers_used (fst (receive_transfer example_h
        (example_completion LIBUSB_TRANSFER_TIMED_OUT 0 70000) example_streaming)) = 3"
proof -
  have u: "user_data (xfer (example_completion LIBUSB_TRANSFER_TIMED_OUT 0 70000))"
    by (simp add: example_completion_def)
  have a: "acq_aborted example_streaming \<noteq> 1"
    by (simp add: example_streaming_def)
  have s: "status (xfer (example_completion LIBUSB_TRANSFER_TIMED_OUT 0 70000))
        = LIBUSB_TRANSFER_TIMED_OUT"
    by (simp add: example_completion_def)
  have z: "actual_length (clamp_actual_length example_streaming
        (xfer (example_completion LIBUSB_TRANSFER_TIMED_OUT 0 70000))) = 0"
    by (simp add: example_completion_def clamp_actual_length_def)
  have g: "samples_got_nbytes example_streaming = 16384"
    by (simp add: example_streaming_def)
  have m: "num_transfers_used example_streaming = 4"
    by (simp add: example_streaming_def)
  have n: "num_transfers_used (fst (receive_transfer example_h
        (example_completion LIBUSB_TRANSFER_TIMED_OUT 0 70000) example_streaming)) = 3"
    by code_simp
  from zero_length_retires [OF disjI2 [OF s] z, of example_h] u a s z g m n
  show ?thesis by simp
qed

section \<open>The claims about a session\<close>

text \<open>
  C1. At every point of a session (after a start that returned \<open>SR_OK\<close> and any
  ticks and stop requests, libusb reporting no negative byte count), across every
  invocation of the completion handler, \<open>samples_got_nbytes\<close> does not decrease and
  does not exceed \<open>samples_need_nbytes\<close>, which stays as it is; where the handler
  counts bytes (status completed or timed-out, latch not set), it adds the minimum of
  \<open>actual_length\<close> and the remaining need.
\<close>

theorem bytes_received_bounded:
  assumes "sipeed_slogic_acquisition_start h env d0 = (SR_OK, d1, subs)"
    and "list_all event_ok es" and "completion_ok c"
  shows "samples_got_nbytes (drive h es d1)
           \<le> samples_got_nbytes (fst (receive_transfer h c (drive h es d1)))
     \<and> samples_got_nbytes (fst (receive_transfer h c (drive h es d1)))
           \<le> samples_need_nbytes (fst (receive_transfer h c (drive h es d1)))
     \<and> samples_need_nbytes (fst (receive_transfer h c (drive h es d1)))
           = samples_need_nbytes (drive h es d1)
     \<and> (user_data (xfer c) \<and> acq_aborted (drive h es d1) \<noteq> 1
          \<and> (status (xfer c) = LIBUSB_TRANSFER_COMPLETED
               \<or> status (xfer c) = LIBUSB_TRANSFER_TIMED_OUT)
         \<longrightarrow> unat (samples_got_nbytes (fst (receive_transfer h c (drive h es d1))))
               = unat (samples_got_nbytes (drive h es d1))
                 + min (unat (actual_length (xfer c)))
                       (unat (samples_need_nbytes (drive h es d1))
                          - unat (samples_got_nbytes (drive h es d1))))"
proof -
  let ?d = "drive h es d1"
  have inv: "samples_got_nbytes ?d \<le> samples_need_nbytes ?d"
    using drive_bytes_inv [OF start_bytes_inv [OF assms(1)] assms(2)]
    by (simp add: bytes_inv_def)
  have nn: "0 \<le> sint (actual_length (xfer c))"
    using assms(3) by (simp add: completion_ok_def)
  note step = receive_transfer_got [OF inv nn, of h] receive_transfer_need [of h c ?d]
  have clamped: "unat (samples_got_nbytes (fst (receive_transfer h c ?d)))
      = unat (samples_got_nbytes ?d)
        + min (unat (actual_length (xfer c)))
              (unat (samples_need_nbytes ?d) - unat (samples_got_nbytes ?d))"
    if a: "user_data (xfer c)" "acq_aborted ?d \<noteq> 1"
      "status (xfer c) = LIBUSB_TRANSFER_COMPLETED
        \<or> status (xfer c) = LIBUSB_TRANSFER_TIMED_OUT"
  proof -
    let ?x = "scast (actual_length (clamp_actual_length ?d (xfer c))) :: u64"
    have "unat (samples_got_nbytes ?d) + unat ?x \<le> unat (samples_need_nbytes ?d)"
      using inv nn by (rule clamp_actual_length_bound)
    also have "\<dots> < 2 ^ LENGTH(64)"
      using unat_u64_bound [of "samples_need_nbytes ?d"] by simp
    finally have "unat (samples_got_nbytes ?d + ?x) = unat (samples_got_nbytes ?d) + unat ?x"
      by (simp only: unat_add_lem)
    then show ?thesis
      by (simp only: receive_transfer_data_got [OF a] clamp_actual_length_min [OF inv nn])
  qed
  from step have "samples_got_nbytes ?d \<le> samples_got_nbytes (fst (receive_transfer h c ?d))"
    and "samples_got_nbytes (fst (receive_transfer h c ?d))
           \<le> samples_need_nbytes (fst (receive_transfer h c ?d))"
    and "samples_need_nbytes (fst (receive_transfer h c ?d)) = samples_need_nbytes ?d"
    by simp_all
  with clamped show ?thesis by blast
qed


theorem bytes_received_bounded_witness:
  "sipeed_slogic_acquisition_start example_h (example_env Submit_ok) example_idle
     = (SR_OK, example_started,
        snd (snd (sipeed_slogic_acquisition_start example_h (example_env Submit_ok)
          example_idle)))
   \<and> list_all event_ok
        [Handle_events [] [example_completion LIBUSB_TRANSFER_COMPLETED 16384 66000]]
   \<and> completion_ok (example_completion LIBUSB_TRANSFER_TIMED_OUT 16384 131000)
   \<and> samples_got_nbytes
        (drive example_h
           [Handle_events [] [example_completion LIBUSB_TRANSFER_COMPLETED 16384 66000]]
           example_started) = 16384
   \<and> samples_got_nbytes
        (fst (receive_transfer example_h
           (example_completion LIBUSB_TRANSFER_TIMED_OUT 16384 131000)
           (drive example_h
              [Handle_events [] [example_completion LIBUSB_TRANSFER_COMPLETED 16384 66000]]
              example_started))) = 32768
   \<and> samples_got_nbytes
        (drive example_h
           [Handle_events [] [example_completion LIBUSB_TRANSFER_COMPLETED 16384 66000]]
           example_started)
       \<le> samples_got_nbytes
        (fst (receive_transfer example_h
           (example_completion LIBUSB_TRANSFER_TIMED_OUT 16384 131000)
           (drive example_h
              [Handle_events [] [example_completion LIBUSB_TRANSFER_COMPLETED 16384 66000]]
              example_started)))"
proof -
  have ok: "list_all event_ok
      [Handle_events [] [example_completion LIBUSB_TRANSFER_COMPLETED 16384 66000]]"
    by code_simp
  have c: "completion_ok (example_completion LIBUSB_TRANSFER_TIMED_OUT 16384 131000)"
    by code_simp
  have v1: "samples_got_nbytes
        (drive example_h
           [Handle_events [] [example_completion LIBUSB_TRANSFER_COMPLETED 16384 66000]]
           example_started) = 16384"
    by code_simp
  have v2: "samples_got_nbytes
        (fst (receive_transfer example_h
           (example_completion LIBUSB_TRANSFER_TIMED_OUT 16384 131000)
           (drive example_h
              [Handle_events [] [example_completion LIBUSB_TRANSFER_COMPLETED 16384 66000]]
              example_started))) = 32768"
    by code_simp
  from bytes_received_bounded [OF example_start_ok ok c] example_start_ok ok c v1 v2
  show ?thesis by blast
qed

text \<open>
  C4. At every point of a session (after a start that returned \<open>SR_OK\<close> and any
  ticks, with their completions and their teardown, and stop requests)
  \<open>num_transfers_used\<close> is at most \<open>NUM_MAX_TRANSFERS\<close>, at most
  \<open>NUM_MAX_TRANSFERS\<close> slots of the array are not empty, and one more invocation of
  the completion handler keeps the count within the capacity.
\<close>

theorem pool_bounded:
  assumes "sipeed_slogic_acquisition_start h env d0 = (SR_OK, d1, subs)"
  shows "num_transfers_used (drive h es d1) \<le> NUM_MAX_TRANSFERS h
     \<and> length (filter (\<lambda>slot. slot \<noteq> None) (transfers (drive h es d1)))
         \<le> unat (NUM_MAX_TRANSFERS h)
     \<and> num_transfers_used (fst (receive_transfer h c (drive h es d1))) \<le> NUM_MAX_TRANSFERS h"
proof -
  have inv: "pool_inv h (drive h es d1)"
    using start_pool_inv [OF assms] by (rule drive_pool_inv)
  then have "num_transfers_used (drive h es d1) \<le> NUM_MAX_TRANSFERS h"
    and "length (transfers (drive h es d1)) = unat (NUM_MAX_TRANSFERS h)"
    by (simp_all add: pool_inv_def)
  moreover have "length (filter (\<lambda>slot. slot \<noteq> None) (transfers (drive h es d1)))
      \<le> length (transfers (drive h es d1))"
    by (rule length_filter_le)
  moreover have "num_transfers_used (fst (receive_transfer h c (drive h es d1)))
      \<le> NUM_MAX_TRANSFERS h"
    using receive_transfer_pool_inv [OF inv, of c] by (simp add: pool_inv_def)
  ultimately show ?thesis by simp
qed

theorem pool_bounded_witness:
  "sipeed_slogic_acquisition_start example_h (example_env Submit_ok) example_idle
     = (SR_OK, example_started,
        snd (snd (sipeed_slogic_acquisition_start example_h (example_env Submit_ok)
          example_idle)))
   \<and> num_transfers_used example_started = 4
   \<and> num_transfers_used
        (drive example_h
           [Handle_events [] [example_completion LIBUSB_TRANSFER_ERROR 0 66000],
            Acquisition_stop,
            Handle_events [[example_completion LIBUSB_TRANSFER_CANCELLED 0 70000]] []]
           example_started) \<le> NUM_MAX_TRANSFERS example_h
   \<and> length (filter (\<lambda>slot. slot \<noteq> None)
        (transfers (drive example_h
           [Handle_events [] [example_completion LIBUSB_TRANSFER_ERROR 0 66000],
            Acquisition_stop,
            Handle_events [[example_completion LIBUSB_TRANSFER_CANCELLED 0 70000]] []]
           example_started))) \<le> unat (NUM_MAX_TRANSFERS example_h)"
proof -
  have v: "num_transfers_used example_started = 4"
    by code_simp
  from pool_bounded [OF example_start_ok,
      of "[Handle_events [] [example_completion LIBUSB_TRANSFER_ERROR 0 66000],
            Acquisition_stop,
            Handle_events [[example_completion LIBUSB_TRANSFER_CANCELLED 0 70000]] []]"]
    example_start_ok v
  show ?thesis by blast
qed

section \<open>The claims about the start\<close>

text \<open>
  C2, as the claim states it, fails: at 1 MHz with two channels the plan of 31250 bytes
  is rounded up to 32768, the first trial submission succeeds, and the size is halved
  once more. The probe ends without error with 16384 bytes per transfer, which is
  neither a multiple of 32 KiB nor at least 32 KiB, and the start returns \<open>SR_OK\<close>.
\<close>

theorem probe_accepts_below_floor_counterexample:
  "fst (sipeed_slogic_acquisition_start example_h (example_env Submit_ok) example_idle) = SR_OK
   \<and> \<not> isl (link_probe (example_env Submit_ok) (start_reset example_idle))
   \<and> per_transfer_nbytes
         (projr (link_probe (example_env Submit_ok) (start_reset example_idle))) = 16384
   \<and> per_transfer_nbytes example_started = 16384
   \<and> \<not> 32768 dvd unat (per_transfer_nbytes example_started)
   \<and> \<not> 32768 \<le> unat (per_transfer_nbytes example_started)"
proof -
  have a: "fst (sipeed_slogic_acquisition_start example_h (example_env Submit_ok) example_idle)
      = SR_OK"
    by code_simp
  have b: "\<not> isl (link_probe (example_env Submit_ok) (start_reset example_idle))"
    by code_simp
  have c: "per_transfer_nbytes
         (projr (link_probe (example_env Submit_ok) (start_reset example_idle))) = 16384"
    by code_simp
  have d: "per_transfer_nbytes example_started = 16384"
    by code_simp
  have e: "\<not> 32768 dvd unat (per_transfer_nbytes example_started)"
    unfolding d by simp
  have f: "\<not> 32768 \<le> unat (per_transfer_nbytes example_started)"
    unfolding d by simp
  from a b c d e f show ?thesis by blast
qed

text \<open>
  C2, amended. For every configuration whose plan for 125 ms is not empty and whose
  divisor \<open>cur_samplerate / SR_KHZ(1) * cur_samplechannel / 8\<close> is not zero (every
  configuration that \<open>api.c\<close> sets is such), and for all outcomes of the allocations
  and submissions, either the probe ends with a \<open>per_transfer_nbytes\<close> that is a
  multiple of 16 KiB, half the rounding granularity, and at least 16 KiB, or the start
  returns \<open>SR_ERR_IO\<close>.
\<close>

theorem probe_accepts_half_blocks:
  assumes plan: "125 * cur_samplerate d0 * cur_samplechannel d0 div 8 div 1000 \<noteq> 0"
    and divisor: "cur_samplerate d0 div 1000 * cur_samplechannel d0 div 8 \<noteq> 0"
  shows "(\<exists>d1. link_probe env (start_reset d0) = Inr d1
            \<and> 16384 dvd unat (per_transfer_nbytes d1)
            \<and> 16384 \<le> unat (per_transfer_nbytes d1))
     \<or> (\<exists>x. link_probe env (start_reset d0) = Inl (SR_ERR_IO, x))"
proof (cases "link_probe env (start_reset d0)")
  case (Inr d1)
  then have loop: "probe_loop (probe_trials env) 0 (start_reset d0) = Inr d1"
    by (simp add: link_probe_def split: if_splits)
  have init: "per_transfer_nbytes (start_reset d0) \<noteq> 0
      \<and> unat (per_transfer_nbytes (start_reset d0)) + 32767 < 2 ^ 64"
    using plan start_reset_plan_bound [of d0] by (simp only: start_reset_plan) simp
  have "16384 dvd unat (per_transfer_nbytes d1) \<and> 16384 \<le> unat (per_transfer_nbytes d1)"
  proof (rule probe_loop_invariant [OF loop,
        where I = "\<lambda>x. per_transfer_nbytes x \<noteq> 0
                      \<and> unat (per_transfer_nbytes x) + 32767 < 2 ^ 64"], goal_cases)
    case 1
    show ?case by (rule init)
  next
    case (2 x)
    then show ?case using halved_block_ge [of "per_transfer_nbytes x"] by auto
  next
    case (3 x)
    then show ?case using halved_block_ge [of "per_transfer_nbytes x"] by simp
  next
    case (4 x)
    then show ?case using halved_block_ge [of "per_transfer_nbytes x"] by simp
  qed
  with Inr show ?thesis by simp
next
  case (Inl a)
  obtain e x where a: "a = (e, x)" by (cases a)
  have nz: "cur_samplerate d0 * cur_samplechannel d0 \<noteq> 0"
  proof
    assume "cur_samplerate d0 * cur_samplechannel d0 = 0"
    then have "125 * cur_samplerate d0 * cur_samplechannel d0 = 0"
      by (simp add: mult.assoc)
    with plan show False by simp
  qed
  have "e = SR_ERR_IO"
  proof (cases "alloc_transfer_ok env")
    case False
    with Inl a show ?thesis by (simp add: link_probe_def)
  next
    case True
    with Inl a have "probe_loop (probe_trials env) 0 (start_reset d0) = Inl (e, x)"
      by (simp add: link_probe_def)
    from probe_loop_Inl_cause [OF this] nz divisor show ?thesis
      by (simp add: start_reset_plan)
  qed
  with Inl a show ?thesis by simp
qed

theorem probe_accepts_half_blocks_witness:
  "125 * cur_samplerate example_idle * cur_samplechannel example_idle div 8 div 1000 \<noteq> 0
   \<and> cur_samplerate example_idle div 1000 * cur_samplechannel example_idle div 8 \<noteq> 0
   \<and> (\<exists>d1. link_probe (example_env Submit_no_mem) (start_reset example_idle) = Inr d1
            \<and> 16384 dvd unat (per_transfer_nbytes d1)
            \<and> 16384 \<le> unat (per_transfer_nbytes d1))"
proof -
  have p: "125 * cur_samplerate example_idle * cur_samplechannel example_idle div 8 div 1000
      \<noteq> 0"
    by (simp add: example_idle_def)
  have d: "cur_samplerate example_idle div 1000 * cur_samplechannel example_idle div 8 \<noteq> 0"
    by (simp add: example_idle_def)
  have "\<not> isl (link_probe (example_env Submit_no_mem) (start_reset example_idle))"
    by code_simp
  then have "\<nexists>x. link_probe (example_env Submit_no_mem) (start_reset example_idle)
      = Inl (SR_ERR_IO, x)"
    by auto
  with probe_accepts_half_blocks [OF p d, of "example_env Submit_no_mem"] p d
  show ?thesis by blast
qed




text \<open>
  C5. The fill that follows a probe: the transfers it submits are as many as
  \<open>num_transfers_used\<close> says at the end; round \<open>k\<close> submitted one exactly
  because \<open>k < NUM_MAX_TRANSFERS\<close> and \<open>samples_got_nbytes + k *
  per_transfer_nbytes < samples_need_nbytes\<close> held and nothing failed, with the
  timeout \<open>(TRANSFERS_DURATION_TOLERANCE + 1) * per_transfer_duration * (k + 2)\<close>:
  the product as the code computes it, in floating point with every operation rounded,
  and its integer part in the field when the product is in the range of
  \<open>unsigned int\<close>. The fill stopped because that test failed or because the
  allocation or the submission of the next round failed. A failure sets no latch and is
  no error of the start: the transfers submitted so far stay submitted, and the start
  returns \<open>SR_OK\<close>, or the code of the remote run command when that command fails
  after some transfer was submitted.
\<close>

theorem fill_pool_rounds_timeouts:
  assumes "\<not> sint (remote_stop_ret env) < 0"
    and "link_probe env (start_reset d0) = Inr d1"
    and "fill_pool h (fill_trials env) (start_arm h d1, []) = (d2, subs)"
  shows "length subs = unat (num_transfers_used d2)
     \<and> (\<forall>k<length subs.
            fill_trials env k = Fill_ok
            \<and> (of_nat k :: u64) < NUM_MAX_TRANSFERS h
            \<and> samples_got_nbytes d1 + of_nat k * per_transfer_nbytes d1 < samples_need_nbytes d1
            \<and> (0 \<le> round_float h
                        (round_float h
                           (round_float h (TRANSFERS_DURATION_TOLERANCE h + 1)
                            * round_float h (of_nat (unat (per_transfer_duration d1))))
                         * round_float h (of_nat (unat (of_nat k + 2 :: u64))))
                \<and> round_float h
                        (round_float h
                           (round_float h (TRANSFERS_DURATION_TOLERANCE h + 1)
                            * round_float h (of_nat (unat (per_transfer_duration d1))))
                         * round_float h (of_nat (unat (of_nat k + 2 :: u64)))) < 2 ^ 32
                \<longrightarrow> int (unat (timeout (subs ! k)))
                    = \<lfloor>round_float h
                        (round_float h
                           (round_float h (TRANSFERS_DURATION_TOLERANCE h + 1)
                            * round_float h (of_nat (unat (per_transfer_duration d1))))
                         * round_float h (of_nat (unat (of_nat k + 2 :: u64))))\<rfloor>))
     \<and> (\<not> (num_transfers_used d2 < NUM_MAX_TRANSFERS h
             \<and> samples_got_nbytes d1 + num_transfers_used d2 * per_transfer_nbytes d1
                 < samples_need_nbytes d1)
          \<or> fill_trials env (length subs) \<noteq> Fill_ok)
     \<and> acq_aborted d2 = 0
     \<and> snd (snd (sipeed_slogic_acquisition_start h env d0)) = subs
     \<and> (fst (sipeed_slogic_acquisition_start h env d0) = SR_OK
          \<or> fst (sipeed_slogic_acquisition_start h env d0) = Remote_failed (remote_run_ret env)
             \<and> subs \<noteq> [])"
proof -
  let ?a = "start_arm h d1"
  let ?P = "\<lambda>k. round_float h
                        (round_float h
                           (round_float h (TRANSFERS_DURATION_TOLERANCE h + 1)
                            * round_float h (of_nat (unat (per_transfer_duration d1))))
                         * round_float h (of_nat (unat (of_nat k + 2 :: u64))))"
  have len0: "length ([] :: libusb_transfer list) = unat (num_transfers_used ?a)"
    by (simp add: start_arm_def)
  note r = fill_pool_rounds [OF assms(3) len0]
  note fr = fill_pool_bytes [OF assms(3)] fill_pool_plan [OF assms(3)]
    fill_pool_pool [OF assms(3)]
  have len: "length subs = unat (num_transfers_used d2)" using r by simp
  have rounds: "fill_trials env k = Fill_ok
      \<and> (of_nat k :: u64) < NUM_MAX_TRANSFERS h
      \<and> samples_got_nbytes d1 + of_nat k * per_transfer_nbytes d1 < samples_need_nbytes d1
      \<and> (0 \<le> ?P k \<and> ?P k < 2 ^ 32 \<longrightarrow> int (unat (timeout (subs ! k))) = \<lfloor>?P k\<rfloor>)"
    if "k < length subs" for k
  proof -
    from r that have ok: "fill_trials env k = Fill_ok"
      and fw: "fill_wanted h (?a\<lparr>num_transfers_used := of_nat k\<rparr>)"
      and sub: "subs ! k = fill_transfer h (?a\<lparr>num_transfers_used := of_nat k\<rparr>)"
      by simp_all
    from sub have t: "timeout (subs ! k) = of_nat (nat \<lfloor>?P k\<rfloor>)"
      by (simp add: fill_transfer_def transfer_timeout_def timeout_product_def
          tolerance_threshold_def start_arm_def)
    have "int (unat (timeout (subs ! k))) = \<lfloor>?P k\<rfloor>" if lo: "0 \<le> ?P k" and hi: "?P k < 2 ^ 32"
    proof -
      have f0: "0 \<le> \<lfloor>?P k\<rfloor>" using lo by (simp add: le_floor_iff)
      have "\<lfloor>?P k\<rfloor> < 2 ^ 32" using hi by (simp add: floor_less_iff)
      then have "nat \<lfloor>?P k\<rfloor> < 2 ^ 32" using f0 by (simp add: nat_less_iff)
      then have "unat (of_nat (nat \<lfloor>?P k\<rfloor>) :: c_uint) = nat \<lfloor>?P k\<rfloor>"
        by (simp add: unat_of_nat)
      then show ?thesis using f0 by (simp only: t)
    qed
    with ok fw show ?thesis
      by (simp add: fill_wanted_def start_arm_def)
  qed
  have stop: "\<not> (num_transfers_used d2 < NUM_MAX_TRANSFERS h
             \<and> samples_got_nbytes d1 + num_transfers_used d2 * per_transfer_nbytes d1
                 < samples_need_nbytes d1)
          \<or> fill_trials env (length subs) \<noteq> Fill_ok"
    using r fr by (auto simp: fill_wanted_def start_arm_def)
  have ab: "acq_aborted d2 = 0" using fr by (simp add: start_arm_def)
  have "subs = [] \<longleftrightarrow> length subs = 0" by simp
  also have "\<dots> \<longleftrightarrow> unat (num_transfers_used d2) = 0" using len by simp
  also have "\<dots> \<longleftrightarrow> num_transfers_used d2 = 0" by (rule unat_eq_0)
  finally have used: "num_transfers_used d2 = 0 \<longleftrightarrow> subs = []" by simp
  have rate: "cur_samplerate (start_need d0) \<noteq> 0"
    using link_probe_Inr_divisor [OF assms(2)]
    by (intro samplerate_nonzero) (simp add: start_reset_plan)
  have "snd (snd (sipeed_slogic_acquisition_start h env d0)) = subs
     \<and> (fst (sipeed_slogic_acquisition_start h env d0) = SR_OK
          \<or> fst (sipeed_slogic_acquisition_start h env d0) = Remote_failed (remote_run_ret env)
             \<and> subs \<noteq> [])"
    using assms used rate
    by (simp add: sipeed_slogic_acquisition_start_def Let_def)
  with len rounds stop ab show ?thesis by blast
qed

theorem fill_pool_rounds_timeouts_witness:
  "\<not> sint (remote_stop_ret example_env_short) < 0
   \<and> link_probe example_env_short (start_reset example_idle)
       = Inr (projr (link_probe example_env_short (start_reset example_idle)))
   \<and> map timeout (snd (snd (sipeed_slogic_acquisition_start example_h example_env_short
        example_idle))) = [136, 204]
   \<and> fill_trials example_env_short 2 \<noteq> Fill_ok
   \<and> fst (sipeed_slogic_acquisition_start example_h example_env_short example_idle) = SR_OK
   \<and> acq_aborted (fst (fill_pool example_h (fill_trials example_env_short)
        (start_arm example_h
           (projr (link_probe example_env_short (start_reset example_idle))), []))) = 0
   \<and> length (snd (fill_pool example_h (fill_trials example_env_short)
        (start_arm example_h
           (projr (link_probe example_env_short (start_reset example_idle))), []))) = 2"
proof -
  let ?d1 = "projr (link_probe example_env_short (start_reset example_idle))"
  let ?f = "fill_pool example_h (fill_trials example_env_short) (start_arm example_h ?d1, [])"
  have a: "\<not> sint (remote_stop_ret example_env_short) < 0"
    by (simp add: example_env_short_def example_env_def)
  have "\<not> isl (link_probe example_env_short (start_reset example_idle))"
    by code_simp
  then have b: "link_probe example_env_short (start_reset example_idle) = Inr ?d1"
    by (cases "link_probe example_env_short (start_reset example_idle)") simp_all
  have c: "?f = (fst ?f, snd ?f)" by simp
  have t: "map timeout (snd (snd (sipeed_slogic_acquisition_start example_h example_env_short
        example_idle))) = [136, 204]"
    by code_simp
  have e: "fill_trials example_env_short 2 \<noteq> Fill_ok"
    by (simp add: example_env_short_def)
  have r: "fst (sipeed_slogic_acquisition_start example_h example_env_short example_idle)
      = SR_OK"
    by code_simp
  note w = fill_pool_rounds_timeouts [OF a b c]
  from w have ab: "acq_aborted (fst ?f) = 0" by blast
  from w have "snd (snd (sipeed_slogic_acquisition_start example_h example_env_short
      example_idle)) = snd ?f" by blast
  with t have "length (snd ?f) = 2" by (metis length_map list.size(3,4) One_nat_def
      Suc_1 add.right_neutral add_Suc_right)
  with a b t e r ab show ?thesis by blast
qed

end
